theory Spec2Isabelle
  imports Main "HOL-Library.Word"
begin

section \<open>Vector addition on an OpenCL device: the host program of vector\_add.c\<close>

text \<open>
  The program allocates three host arrays, fills two of them with ones, drives an OpenCL
  device through a fixed sequence of API calls (create the objects, upload, build and
  launch the kernel \<open>vecadd\<close>, read back, release) and prints the output array.

  \<^item> \<open>main\<close> is kept as the sequence of its statements, one state transformer per source
    statement, in source order; a loop contributes the statements it executes.
  \<^item> The OpenCL runtime is not part of the repository. Each call returns the status the
    environment chooses for it, unless an object passed to the call is not valid: then it
    returns the matching \<open>CL_INVALID_...\<close> code, as the OpenCL specification documents. A
    call has its documented effect exactly when it returns \<open>CL_SUCCESS\<close>. A handle
    variable that no successful call has set (uninitialised, or null after a failed
    creation) does not name a valid object.
  \<^item> Host allocation is taken to succeed (the source never tests the result of
    \<open>malloc\<close>). What freshly allocated host and device memory holds, and the initial value
    of \<open>status\<close>, are chosen by the environment.
  \<^item> A run ends with an exit code, the argument of \<open>exit\<close> or the value returned by
    \<open>main\<close>, or in a fault, where the C or OpenCL standard defines no behaviour.
\<close>

subsection \<open>Values, arrays and OpenCL objects\<close>

type_synonym c_int = "32 word"
type_synonym cl_int = "32 word"

abbreviation nl :: char where
  "nl \<equiv> CHR 0x0A"

text \<open>Line 42: \<open>const int elements = 2048\<close>; line 45: \<open>datasize = sizeof(int)*elements\<close>,
  with \<open>int\<close> of 32 bits.\<close>

definition elements :: nat where
  "elements = 2048"

definition sizeof_int :: nat where
  "sizeof_int = 4"

definition datasize :: nat where
  "datasize = sizeof_int * elements"

text \<open>Lines 112-113: the index space and the work-group size of the dispatch.\<close>

definition indexSpaceSize :: nat where
  "indexSpaceSize = elements"

definition workGroupSize :: nat where
  "workGroupSize = 256"

text \<open>The number of work-groups of a one-dimensional dispatch (OpenCL: global size divided
  by local size).\<close>

definition num_groups :: "nat \<Rightarrow> nat \<Rightarrow> nat" where
  "num_groups g l = g div l"

datatype host_array = arrA | arrB | arrC

datatype cl_mem = bufA | bufB | bufC

datatype handle =
    h_platform | h_device | h_context | h_cmdQueue | h_mem cl_mem | h_program | h_kernel

text \<open>The API calls the program makes, with the arguments that matter here: buffer and
  transfer sizes in bytes, the host array of a transfer, the argument index of
  \<open>clSetKernelArg\<close>, the global and local size of the one-dimensional dispatch. The
  memory flags of \<open>clCreateBuffer\<close> restrict what a kernel may do with a buffer; they are
  left out.\<close>

datatype call =
    clGetPlatformIDs
  | clGetDeviceIDs
  | clCreateContext
  | clCreateCommandQueueWithPropertiesAPPLE
  | clCreateBuffer cl_mem nat
  | clEnqueueWriteBuffer cl_mem nat host_array
  | clCreateProgramWithSource
  | clBuildProgram
  | clCreateKernel
  | clSetKernelArg nat cl_mem
  | clEnqueueNDRangeKernel nat nat
  | clEnqueueReadBuffer cl_mem nat host_array
  | clReleaseKernel
  | clReleaseProgram
  | clReleaseCommandQueue
  | clReleaseMemObject cl_mem
  | clReleaseContext

text \<open>Status codes of \<open>CL/cl.h\<close>.\<close>

definition CL_SUCCESS :: cl_int where "CL_SUCCESS = 0"
definition CL_INVALID_VALUE :: cl_int where "CL_INVALID_VALUE = - 30"
definition CL_INVALID_PLATFORM :: cl_int where "CL_INVALID_PLATFORM = - 32"
definition CL_INVALID_DEVICE :: cl_int where "CL_INVALID_DEVICE = - 33"
definition CL_INVALID_CONTEXT :: cl_int where "CL_INVALID_CONTEXT = - 34"
definition CL_INVALID_COMMAND_QUEUE :: cl_int where "CL_INVALID_COMMAND_QUEUE = - 36"
definition CL_INVALID_MEM_OBJECT :: cl_int where "CL_INVALID_MEM_OBJECT = - 38"
definition CL_INVALID_PROGRAM :: cl_int where "CL_INVALID_PROGRAM = - 44"
definition CL_INVALID_PROGRAM_EXECUTABLE :: cl_int where "CL_INVALID_PROGRAM_EXECUTABLE = - 45"
definition CL_INVALID_KERNEL :: cl_int where "CL_INVALID_KERNEL = - 48"
definition CL_INVALID_ARG_INDEX :: cl_int where "CL_INVALID_ARG_INDEX = - 49"
definition CL_INVALID_KERNEL_ARGS :: cl_int where "CL_INVALID_KERNEL_ARGS = - 52"
definition CL_INVALID_WORK_GROUP_SIZE :: cl_int where "CL_INVALID_WORK_GROUP_SIZE = - 54"
definition CL_INVALID_BUFFER_SIZE :: cl_int where "CL_INVALID_BUFFER_SIZE = - 61"

subsection \<open>State and environment\<close>

text \<open>
  \<open>heap\<close>: the host arrays (\<open>None\<close>: not allocated, or freed); \<open>status\<close>: the local
  variable of \<open>main\<close>; \<open>valid\<close>: the OpenCL objects that exist; \<open>built\<close>: the program
  has an executable; \<open>mem\<close>: the contents of the device buffers; \<open>args\<close>: the kernel's
  bound arguments; \<open>stdout\<close>: the text printed so far; \<open>calls\<close>: the API calls made so
  far, each with the status it returned.
\<close>

record state =
  heap :: "host_array \<Rightarrow> c_int list option"
  status :: cl_int
  valid :: "handle set"
  built :: bool
  mem :: "cl_mem \<Rightarrow> c_int list"
  args :: "nat \<Rightarrow> cl_mem option"
  stdout :: string
  calls :: "(call \<times> cl_int) list"

record env =
  api_status :: "call \<Rightarrow> cl_int"
  malloc_garbage :: "host_array \<Rightarrow> nat \<Rightarrow> c_int"
  device_garbage :: "cl_mem \<Rightarrow> nat \<Rightarrow> c_int"
  stack_garbage :: cl_int

datatype outcome = Exit int | Fault

type_synonym stmt = "state \<Rightarrow> (outcome \<times> state) + state"

subsection \<open>The kernel (lines 15-29)\<close>

text \<open>One work-item: \<open>C[idx] = A[idx] + B[idx]\<close> on the buffers bound to the three
  arguments; an access outside a buffer is a device fault (\<open>None\<close>).\<close>

definition vecadd ::
  "cl_mem \<Rightarrow> cl_mem \<Rightarrow> cl_mem \<Rightarrow> nat \<Rightarrow> (cl_mem \<Rightarrow> c_int list) \<Rightarrow> (cl_mem \<Rightarrow> c_int list) option" where
  "vecadd a b c idx m =
     (if idx < length (m a) \<and> idx < length (m b) \<and> idx < length (m c)
      then Some (m(c := (m c)[idx := m a ! idx + m b ! idx]))
      else None)"

text \<open>The work-items of a dispatch, run one after the other in the order of the list. A
  device may run them in any order or in parallel; for this kernel the result is the same
  (\<open>work_items_order_irrelevant\<close> below).\<close>

fun work_items ::
  "(nat \<Rightarrow> 'm \<Rightarrow> 'm option) \<Rightarrow> nat list \<Rightarrow> 'm \<Rightarrow> 'm option" where
  "work_items k [] m = Some m"
| "work_items k (i # ids) m =
     (case k i m of None \<Rightarrow> None | Some m' \<Rightarrow> work_items k ids m')"

subsection \<open>The OpenCL runtime\<close>

text \<open>The error a call returns when an object or a size it is given is not valid.\<close>

fun invalid_arg :: "call \<Rightarrow> state \<Rightarrow> cl_int option" where
  "invalid_arg clGetPlatformIDs s = None"
| "invalid_arg clGetDeviceIDs s =
     (if h_platform \<notin> valid s then Some CL_INVALID_PLATFORM else None)"
| "invalid_arg clCreateContext s =
     (if h_device \<notin> valid s then Some CL_INVALID_DEVICE else None)"
| "invalid_arg clCreateCommandQueueWithPropertiesAPPLE s =
     (if h_context \<notin> valid s then Some CL_INVALID_CONTEXT
      else if h_device \<notin> valid s then Some CL_INVALID_DEVICE else None)"
| "invalid_arg (clCreateBuffer b n) s =
     (if h_context \<notin> valid s then Some CL_INVALID_CONTEXT
      else if n = 0 then Some CL_INVALID_BUFFER_SIZE else None)"
| "invalid_arg (clEnqueueWriteBuffer b n p) s =
     (if h_cmdQueue \<notin> valid s then Some CL_INVALID_COMMAND_QUEUE
      else if h_mem b \<notin> valid s then Some CL_INVALID_MEM_OBJECT
      else if length (mem s b) < n div sizeof_int then Some CL_INVALID_VALUE else None)"
| "invalid_arg clCreateProgramWithSource s =
     (if h_context \<notin> valid s then Some CL_INVALID_CONTEXT else None)"
| "invalid_arg clBuildProgram s =
     (if h_program \<notin> valid s then Some CL_INVALID_PROGRAM
      else if h_device \<notin> valid s then Some CL_INVALID_DEVICE else None)"
| "invalid_arg clCreateKernel s =
     (if h_program \<notin> valid s then Some CL_INVALID_PROGRAM
      else if \<not> built s then Some CL_INVALID_PROGRAM_EXECUTABLE else None)"
| "invalid_arg (clSetKernelArg i b) s =
     (if h_kernel \<notin> valid s then Some CL_INVALID_KERNEL
      else if 3 \<le> i then Some CL_INVALID_ARG_INDEX else None)"
| "invalid_arg (clEnqueueNDRangeKernel g l) s =
     (if h_cmdQueue \<notin> valid s then Some CL_INVALID_COMMAND_QUEUE
      else if h_kernel \<notin> valid s then Some CL_INVALID_KERNEL
      else if args s 0 = None \<or> args s 1 = None \<or> args s 2 = None
        then Some CL_INVALID_KERNEL_ARGS
      else if l = 0 \<or> g mod l \<noteq> 0 then Some CL_INVALID_WORK_GROUP_SIZE else None)"
| "invalid_arg (clEnqueueReadBuffer b n p) s =
     (if h_cmdQueue \<notin> valid s then Some CL_INVALID_COMMAND_QUEUE
      else if h_mem b \<notin> valid s then Some CL_INVALID_MEM_OBJECT
      else if length (mem s b) < n div sizeof_int then Some CL_INVALID_VALUE else None)"
| "invalid_arg clReleaseKernel s =
     (if h_kernel \<notin> valid s then Some CL_INVALID_KERNEL else None)"
| "invalid_arg clReleaseProgram s =
     (if h_program \<notin> valid s then Some CL_INVALID_PROGRAM else None)"
| "invalid_arg clReleaseCommandQueue s =
     (if h_cmdQueue \<notin> valid s then Some CL_INVALID_COMMAND_QUEUE else None)"
| "invalid_arg (clReleaseMemObject b) s =
     (if h_mem b \<notin> valid s then Some CL_INVALID_MEM_OBJECT else None)"
| "invalid_arg clReleaseContext s =
     (if h_context \<notin> valid s then Some CL_INVALID_CONTEXT else None)"

text \<open>The status a call returns in a state.\<close>

definition returned :: "env \<Rightarrow> call \<Rightarrow> state \<Rightarrow> cl_int" where
  "returned env c s = (case invalid_arg c s of Some e \<Rightarrow> e | None \<Rightarrow> api_status env c)"

text \<open>
  The effect of a call that succeeds. The command queue is in order and the program does
  not touch \<open>A\<close> and \<open>B\<close> between the uploads and the blocking read, so each command
  takes effect where it is enqueued. \<open>clSetKernelArg\<close> accepts the handle of a buffer
  that was never created (a null handle); the kernel then gets a null pointer. A transfer
  from or to a host array that is not allocated or is too short, a kernel started on a
  null pointer and a work-item outside its buffers have no defined behaviour: they are a
  fault (\<open>None\<close>).
\<close>

fun effect :: "env \<Rightarrow> call \<Rightarrow> state \<Rightarrow> state option" where
  "effect env clGetPlatformIDs s = Some (s\<lparr>valid := insert h_platform (valid s)\<rparr>)"
| "effect env clGetDeviceIDs s = Some (s\<lparr>valid := insert h_device (valid s)\<rparr>)"
| "effect env clCreateContext s = Some (s\<lparr>valid := insert h_context (valid s)\<rparr>)"
| "effect env clCreateCommandQueueWithPropertiesAPPLE s =
     Some (s\<lparr>valid := insert h_cmdQueue (valid s)\<rparr>)"
| "effect env (clCreateBuffer b n) s =
     Some (s\<lparr>valid := insert (h_mem b) (valid s),
             mem := (mem s)(b := map (device_garbage env b) [0..<n div sizeof_int])\<rparr>)"
| "effect env (clEnqueueWriteBuffer b n p) s =
     (case heap s p of
        None \<Rightarrow> None
      | Some xs \<Rightarrow>
          if length xs < n div sizeof_int then None
          else Some (s\<lparr>mem := (mem s)(b := take (n div sizeof_int) xs
                                           @ drop (n div sizeof_int) (mem s b))\<rparr>))"
| "effect env clCreateProgramWithSource s =
     Some (s\<lparr>valid := insert h_program (valid s), built := False\<rparr>)"
| "effect env clBuildProgram s = Some (s\<lparr>built := True\<rparr>)"
| "effect env clCreateKernel s =
     Some (s\<lparr>valid := insert h_kernel (valid s), args := (\<lambda>i. None)\<rparr>)"
| "effect env (clSetKernelArg i b) s = Some (s\<lparr>args := (args s)(i := Some b)\<rparr>)"
| "effect env (clEnqueueNDRangeKernel g l) s =
     (case (args s 0, args s 1, args s 2) of
        (Some a, Some b, Some c) \<Rightarrow>
          if h_mem a \<in> valid s \<and> h_mem b \<in> valid s \<and> h_mem c \<in> valid s
          then (case work_items (vecadd a b c) [0..<g] (mem s) of
                  None \<Rightarrow> None
                | Some m \<Rightarrow> Some (s\<lparr>mem := m\<rparr>))
          else None
      | _ \<Rightarrow> None)"
| "effect env (clEnqueueReadBuffer b n p) s =
     (case heap s p of
        None \<Rightarrow> None
      | Some xs \<Rightarrow>
          if length xs < n div sizeof_int then None
          else Some (s\<lparr>heap := (heap s)(p := Some (take (n div sizeof_int) (mem s b)
                                                    @ drop (n div sizeof_int) xs))\<rparr>))"
| "effect env clReleaseKernel s = Some (s\<lparr>valid := valid s - {h_kernel}\<rparr>)"
| "effect env clReleaseProgram s = Some (s\<lparr>valid := valid s - {h_program}\<rparr>)"
| "effect env clReleaseCommandQueue s = Some (s\<lparr>valid := valid s - {h_cmdQueue}\<rparr>)"
| "effect env (clReleaseMemObject b) s = Some (s\<lparr>valid := valid s - {h_mem b}\<rparr>)"
| "effect env clReleaseContext s = Some (s\<lparr>valid := valid s - {h_context}\<rparr>)"

text \<open>A call: it returns its status, takes effect when that is \<open>CL_SUCCESS\<close>, and is
  recorded in \<open>calls\<close>.\<close>

definition api :: "env \<Rightarrow> call \<Rightarrow> state \<Rightarrow> (outcome \<times> state) + (cl_int \<times> state)" where
  "api env c s =
     (let r = returned env c s in
      if r = CL_SUCCESS
      then (case effect env c s of
              None \<Rightarrow> Inl (Fault, s)
            | Some s' \<Rightarrow> Inr (r, s'\<lparr>calls := calls s @ [(c, r)]\<rparr>))
      else Inr (r, s\<lparr>calls := calls s @ [(c, r)]\<rparr>))"

subsection \<open>The statements of the host program\<close>

text \<open>\<open>status = f(...)\<close>, and \<open>x = f(..., &status)\<close>.\<close>

definition assign_status :: "env \<Rightarrow> call \<Rightarrow> stmt" where
  "assign_status env c s =
     (case api env c s of Inl x \<Rightarrow> Inl x | Inr (r, s') \<Rightarrow> Inr (s'\<lparr>status := r\<rparr>))"

text \<open>\<open>f(...);\<close> with the returned status dropped.\<close>

definition discard :: "env \<Rightarrow> call \<Rightarrow> stmt" where
  "discard env c s = (case api env c s of Inl x \<Rightarrow> Inl x | Inr (r, s') \<Rightarrow> Inr s')"

text \<open>Lines 31-36: \<open>check\<close> prints the error message and calls \<open>exit(-1)\<close> when the
  status is negative, and returns otherwise.\<close>

definition check :: "cl_int \<Rightarrow> stmt" where
  "check st s =
     (if sint st < 0
      then Inl (Exit (- 1), s\<lparr>stdout := stdout s @ ''ERROR. Exiting...'' @ [nl]\<rparr>)
      else Inr s)"

text \<open>\<open>check(status);\<close>\<close>

definition check_status :: stmt where
  "check_status s = check (status s) s"

text \<open>\<open>p = (int*)malloc(n)\<close>.\<close>

definition malloc :: "env \<Rightarrow> host_array \<Rightarrow> nat \<Rightarrow> stmt" where
  "malloc env p n s =
     Inr (s\<lparr>heap := (heap s)(p := Some (map (malloc_garbage env p) [0..<n div sizeof_int]))\<rparr>)"

text \<open>\<open>free(p)\<close>.\<close>

definition free :: "host_array \<Rightarrow> stmt" where
  "free p s = Inr (s\<lparr>heap := (heap s)(p := None)\<rparr>)"

text \<open>\<open>p[i] = v\<close>.\<close>

definition store :: "host_array \<Rightarrow> nat \<Rightarrow> c_int \<Rightarrow> stmt" where
  "store p i v s =
     (case heap s p of
        None \<Rightarrow> Inl (Fault, s)
      | Some xs \<Rightarrow>
          if i < length xs then Inr (s\<lparr>heap := (heap s)(p := Some (xs[i := v]))\<rparr>)
          else Inl (Fault, s))"

text \<open>\<open>printf\<close> of a literal.\<close>

definition printf_s :: "string \<Rightarrow> stmt" where
  "printf_s str s = Inr (s\<lparr>stdout := stdout s @ str\<rparr>)"

text \<open>The decimal rendering that \<open>printf("%d", x)\<close> produces.\<close>

definition digit :: "nat \<Rightarrow> char" where
  "digit d = char_of (48 + d)"

fun digits :: "nat \<Rightarrow> string" where
  "digits n = (if n < 10 then [digit n] else digits (n div 10) @ [digit (n mod 10)])"

definition decimal :: "int \<Rightarrow> string" where
  "decimal x = (if x < 0 then CHR ''-'' # digits (nat (- x)) else digits (nat x))"

text \<open>\<open>printf("%d", p[i])\<close>.\<close>

definition printf_d :: "host_array \<Rightarrow> nat \<Rightarrow> stmt" where
  "printf_d p i s =
     (case heap s p of
        None \<Rightarrow> Inl (Fault, s)
      | Some xs \<Rightarrow>
          if i < length xs then Inr (s\<lparr>stdout := stdout s @ decimal (sint (xs ! i))\<rparr>)
          else Inl (Fault, s))"

text \<open>\<open>return v\<close> from \<open>main\<close>.\<close>

definition return_main :: "int \<Rightarrow> stmt" where
  "return_main v s = Inl (Exit v, s)"

text \<open>\<open>for (i = i0; i < n; i++) body\<close>: the statements it executes, in order.\<close>

function for_loop :: "nat \<Rightarrow> nat \<Rightarrow> (nat \<Rightarrow> stmt list) \<Rightarrow> stmt list" where
  "for_loop i n body = (if i < n then body i @ for_loop (Suc i) n body else [])"
  by pat_completeness auto
termination
  by (relation "measure (\<lambda>(i, n, body). n - i)") auto

subsection \<open>Running a statement sequence\<close>

text \<open>\<open>exec\<close> stops at the first statement that ends the process; \<open>points\<close> lists the
  state after every statement that was executed.\<close>

fun exec :: "stmt list \<Rightarrow> state \<Rightarrow> (outcome \<times> state) + state" where
  "exec [] s = Inr s"
| "exec (c # cs) s = (case c s of Inl x \<Rightarrow> Inl x | Inr s' \<Rightarrow> exec cs s')"

fun points :: "stmt list \<Rightarrow> state \<Rightarrow> state list" where
  "points [] s = []"
| "points (c # cs) s =
     (case c s of Inl x \<Rightarrow> [snd x] | Inr s' \<Rightarrow> s' # points cs s')"

subsection \<open>The program (lines 38-146)\<close>

definition init_state :: "env \<Rightarrow> state" where
  "init_state env =
     \<lparr>heap = (\<lambda>p. None), status = stack_garbage env, valid = {}, built = False,
      mem = (\<lambda>b. []), args = (\<lambda>i. None), stdout = [], calls = []\<rparr>"

text \<open>Lines 48-57: allocation and the initialisation loop.\<close>

definition host_setup :: "env \<Rightarrow> stmt list" where
  "host_setup env =
     [malloc env arrA datasize, malloc env arrB datasize, malloc env arrC datasize]
     @ for_loop 0 elements (\<lambda>i. [store arrA i 1, store arrB i 1])"

text \<open>Lines 62-124: the device is set up, fed, run and read. \<open>check(status)\<close> follows five
  of the calls; the status of every other call is overwritten or never looked at.\<close>

definition offload :: "env \<Rightarrow> stmt list" where
  "offload env =
     [assign_status env clGetPlatformIDs,
      assign_status env clGetDeviceIDs,
      assign_status env clCreateContext,
      assign_status env clCreateCommandQueueWithPropertiesAPPLE,
      assign_status env (clCreateBuffer bufA datasize),
      assign_status env (clCreateBuffer bufB datasize),
      assign_status env (clCreateBuffer bufC datasize),
      assign_status env (clEnqueueWriteBuffer bufA datasize arrA),
      assign_status env (clEnqueueWriteBuffer bufB datasize arrB),
      printf_s (''Create a program with source code'' @ [nl]),
      assign_status env clCreateProgramWithSource,
      check_status,
      printf_s (''Build (compile) the program for the device'' @ [nl]),
      assign_status env clBuildProgram,
      check_status,
      printf_s (''Create the vector addition kernel'' @ [nl]),
      assign_status env clCreateKernel,
      check_status,
      printf_s (''Set the kernel arguments'' @ [nl]),
      assign_status env (clSetKernelArg 0 bufA),
      assign_status env (clSetKernelArg 1 bufB),
      assign_status env (clSetKernelArg 2 bufC),
      check_status,
      printf_s (''Execute the kernel'' @ [nl]),
      assign_status env (clEnqueueNDRangeKernel indexSpaceSize workGroupSize),
      check_status,
      printf_s (''The kernel has finished execution on the device'' @ [nl]),
      printf_s (''Read the device output buffer to the host output array'' @ [nl]),
      assign_status env (clEnqueueReadBuffer bufC datasize arrC)]"

text \<open>Lines 127-133: the device objects are released; what the calls return is dropped.\<close>

definition release :: "env \<Rightarrow> stmt list" where
  "release env =
     [discard env clReleaseKernel,
      discard env clReleaseProgram,
      discard env clReleaseCommandQueue,
      discard env (clReleaseMemObject bufA),
      discard env (clReleaseMemObject bufB),
      discard env (clReleaseMemObject bufC),
      discard env clReleaseContext]"

text \<open>Lines 135-138: the print loop.\<close>

definition print_output :: "stmt list" where
  "print_output = for_loop 0 elements (\<lambda>i. [printf_d arrC i, printf_s [nl]])"

text \<open>Lines 141-145: the host arrays are freed and \<open>main\<close> returns 0.\<close>

definition host_cleanup :: "stmt list" where
  "host_cleanup = [free arrA, free arrB, free arrC, return_main 0]"

definition main_body :: "env \<Rightarrow> stmt list" where
  "main_body env = host_setup env @ offload env @ release env @ print_output @ host_cleanup"

text \<open>A run: how the process ends, and the state it ends in. Running off the end of
  \<open>main\<close> would return 0.\<close>

definition main :: "env \<Rightarrow> outcome \<times> state" where
  "main env = (case exec (main_body env) (init_state env) of Inl x \<Rightarrow> x | Inr s \<Rightarrow> (Exit 0, s))"

subsection \<open>What is observed of a run\<close>

text \<open>The calls whose status reaches \<open>check\<close>: lines 88, 93, 98, 105 (which sees only the
  status of the third \<open>clSetKernelArg\<close>) and 118.\<close>

fun checked :: "call \<Rightarrow> bool" where
  "checked clCreateProgramWithSource = True"
| "checked clBuildProgram = True"
| "checked clCreateKernel = True"
| "checked (clSetKernelArg i b) = (i = 2)"
| "checked (clEnqueueNDRangeKernel g l) = True"
| "checked c = False"

text \<open>The checked calls of a call record that returned a negative status.\<close>

definition failed_checks :: "(call \<times> cl_int) list \<Rightarrow> (call \<times> cl_int) list" where
  "failed_checks l = filter (\<lambda>(c, r). checked c \<and> sint r < 0) l"

text \<open>The seven progress messages (lines 86, 91, 96, 101, 116, 120, 121), without their
  newlines.\<close>

definition progress_lines :: "string list" where
  "progress_lines =
     [''Create a program with source code'',
      ''Build (compile) the program for the device'',
      ''Create the vector addition kernel'',
      ''Set the kernel arguments'',
      ''Execute the kernel'',
      ''The kernel has finished execution on the device'',
      ''Read the device output buffer to the host output array'']"

text \<open>The text of a sequence of lines: each line followed by a newline.\<close>

definition lines_text :: "string list \<Rightarrow> string" where
  "lines_text ls = concat (map (\<lambda>l. l @ [nl]) ls)"

text \<open>The API calls of the program, in source order.\<close>

definition program_calls :: "call list" where
  "program_calls =
     [clGetPlatformIDs, clGetDeviceIDs, clCreateContext, clCreateCommandQueueWithPropertiesAPPLE,
      clCreateBuffer bufA datasize, clCreateBuffer bufB datasize, clCreateBuffer bufC datasize,
      clEnqueueWriteBuffer bufA datasize arrA, clEnqueueWriteBuffer bufB datasize arrB,
      clCreateProgramWithSource, clBuildProgram, clCreateKernel,
      clSetKernelArg 0 bufA, clSetKernelArg 1 bufB, clSetKernelArg 2 bufC,
      clEnqueueNDRangeKernel indexSpaceSize workGroupSize,
      clEnqueueReadBuffer bufC datasize arrC,
      clReleaseKernel, clReleaseProgram, clReleaseCommandQueue,
      clReleaseMemObject bufA, clReleaseMemObject bufB, clReleaseMemObject bufC,
      clReleaseContext]"

fun is_dispatch :: "call \<Rightarrow> bool" where
  "is_dispatch (clEnqueueNDRangeKernel g l) = True"
| "is_dispatch c = False"

text \<open>\<open>x\<close> occurs in the list, and \<open>y\<close> occurs later.\<close>

fun precedes :: "'a \<Rightarrow> 'a \<Rightarrow> 'a list \<Rightarrow> bool" where
  "precedes x y [] = False"
| "precedes x y (z # zs) = ((z = x \<and> y \<in> set zs) \<or> precedes x y zs)"

text \<open>The run up to the start of the print loop (line 135), and the host array \<open>C\<close> as
  the print loop finds it: what the read-back of line 124 left there.\<close>

definition pre_print :: "env \<Rightarrow> (outcome \<times> state) + state" where
  "pre_print env = exec (host_setup env @ offload env @ release env) (init_state env)"

definition downloaded_C :: "env \<Rightarrow> c_int list" where
  "downloaded_C env =
     (case pre_print env of
        Inl x \<Rightarrow> []
      | Inr s \<Rightarrow> (case heap s arrC of None \<Rightarrow> [] | Some cs \<Rightarrow> cs))"

text \<open>The states of a run, one after each statement executed; those from the end of
  the initialisation loop on; and those from the end of the initialisation loop to the
  end of the print loop.\<close>

definition run_points :: "env \<Rightarrow> state list" where
  "run_points env = points (main_body env) (init_state env)"

definition after_init :: "env \<Rightarrow> state list" where
  "after_init env = drop (length (host_setup env) - 1) (run_points env)"

definition until_printed :: "env \<Rightarrow> state list" where
  "until_printed env =
     take (1 + length (offload env @ release env @ print_output)) (after_init env)"

subsection \<open>Sample environments\<close>

text \<open>Every call succeeds; fresh memory holds zeros.\<close>

definition env_ok :: env where
  "env_ok = \<lparr>api_status = (\<lambda>c. CL_SUCCESS), malloc_garbage = (\<lambda>p i. 0),
            device_garbage = (\<lambda>b i. 0), stack_garbage = 0\<rparr>"

text \<open>The blocking read of the output buffer (line 124) fails with
  \<open>CL_OUT_OF_RESOURCES\<close>.\<close>

definition env_readback_fails :: env where
  "env_readback_fails =
     env_ok\<lparr>api_status := (\<lambda>c. CL_SUCCESS)(clEnqueueReadBuffer bufC datasize arrC := - 5)\<rparr>"

text \<open>The upload of \<open>A\<close> (line 82) fails with \<open>CL_MEM_OBJECT_ALLOCATION_FAILURE\<close>.\<close>

definition env_upload_fails :: env where
  "env_upload_fails =
     env_ok\<lparr>api_status := (\<lambda>c. CL_SUCCESS)(clEnqueueWriteBuffer bufA datasize arrA := - 4)\<rparr>"

text \<open>No platform: \<open>clGetPlatformIDs\<close> (line 64) fails with
  \<open>CL_PLATFORM_NOT_FOUND_KHR\<close>.\<close>

definition env_no_platform :: env where
  "env_no_platform = env_ok\<lparr>api_status := (\<lambda>c. CL_SUCCESS)(clGetPlatformIDs := - 1001)\<rparr>"

text \<open>The creation of the first input buffer (line 77) fails with
  \<open>CL_MEM_OBJECT_ALLOCATION_FAILURE\<close>.\<close>

definition env_buffer_fails :: env where
  "env_buffer_fails =
     env_ok\<lparr>api_status := (\<lambda>c. CL_SUCCESS)(clCreateBuffer bufA datasize := - 4)\<rparr>"

subsection \<open>Invariants and proof rules\<close>

text \<open>The calls as the program makes them: transfers and buffers of \<open>datasize\<close> bytes,
  the dispatch over \<open>indexSpaceSize\<close> work-items, the read-back into \<open>C\<close>.\<close>

fun prog_call :: "call \<Rightarrow> bool" where
  "prog_call (clCreateBuffer b n) = (n = datasize)"
| "prog_call (clEnqueueWriteBuffer b n p) = (n = datasize)"
| "prog_call (clEnqueueNDRangeKernel g l) = (g = indexSpaceSize)"
| "prog_call (clEnqueueReadBuffer b n p) = (n = datasize \<and> p = arrC)"
| "prog_call c = True"

text \<open>Between the initialisation loop and the first \<open>free\<close>: \<open>A\<close> and \<open>B\<close> hold ones,
  \<open>C\<close> is allocated with \<open>elements\<close> entries, and every device buffer that exists has
  \<open>elements\<close> entries.\<close>

definition inputs_ones :: "state \<Rightarrow> bool" where
  "inputs_ones s =
     (heap s arrA = Some (replicate elements 1) \<and> heap s arrB = Some (replicate elements 1))"

definition ones_or_freed :: "state \<Rightarrow> bool" where
  "ones_or_freed s =
     ((heap s arrA = None \<or> heap s arrA = Some (replicate elements 1))
      \<and> (heap s arrB = None \<or> heap s arrB = Some (replicate elements 1)))"

definition host_ready :: "state \<Rightarrow> bool" where
  "host_ready s =
     (heap s arrA = Some (replicate elements 1) \<and> heap s arrB = Some (replicate elements 1)
      \<and> (case heap s arrC of None \<Rightarrow> False | Some cs \<Rightarrow> length cs = elements))"

definition dev_sized :: "state \<Rightarrow> bool" where
  "dev_sized s = (\<forall>b. h_mem b \<in> valid s \<longrightarrow> length (mem s b) = elements)"

definition run_inv :: "state \<Rightarrow> bool" where
  "run_inv s = (host_ready s \<and> dev_sized s \<and> failed_checks (calls s) = [])"

definition known_calls :: "state \<Rightarrow> bool" where
  "known_calls s = (\<forall>x\<in>set (calls s). fst x \<in> set program_calls)"

text \<open>How a run can stop before the end of \<open>main\<close>: by a fault, with no check failed so
  far, or through \<open>check\<close> with exit code -1 after a checked call failed.\<close>

definition stopped :: "outcome \<times> state \<Rightarrow> bool" where
  "stopped x =
     ((fst x = Fault \<and> failed_checks (calls (snd x)) = [])
      \<or> (fst x = Exit (- 1) \<and> failed_checks (calls (snd x)) \<noteq> []))"

text \<open>A statement sequence that keeps \<open>run_inv\<close> or stops the run as \<open>stopped\<close> says.\<close>

definition seg_ok :: "stmt list \<Rightarrow> bool" where
  "seg_ok cs =
     (\<forall>s. run_inv s \<longrightarrow>
        (case exec cs s of
           Inr s' \<Rightarrow> run_inv s'
         | Inl x \<Rightarrow> stopped x))"

text \<open>A statement that, when it continues, appends \<open>d\<close> to the list \<open>f\<close> observes; and a
  statement that keeps a property of the state, whether it continues or stops.\<close>

definition appends :: "(state \<Rightarrow> 'a list) \<Rightarrow> stmt \<Rightarrow> 'a list \<Rightarrow> bool" where
  "appends f c d = (\<forall>s s'. c s = Inr s' \<longrightarrow> f s' = f s @ d)"

definition preserves :: "(state \<Rightarrow> bool) \<Rightarrow> stmt \<Rightarrow> bool" where
  "preserves I c = (\<forall>s. I s \<longrightarrow> (case c s of Inl x \<Rightarrow> I (snd x) | Inr s' \<Rightarrow> I s'))"



section \<open>Properties\<close>


subsection \<open>Statement sequences, loops and the host set-up\<close>

declare digits.simps [simp del]

declare for_loop.simps [simp del]

lemma exec_append:
  "exec (xs @ ys) s = (case exec xs s of Inl x \<Rightarrow> Inl x | Inr s' \<Rightarrow> exec ys s')"
  by (induction xs arbitrary: s) (auto split: sum.splits)

lemma points_append:
  "points (xs @ ys) s =
     (case exec xs s of Inl x \<Rightarrow> points xs s | Inr s' \<Rightarrow> points xs s @ points ys s')"
  by (induction xs arbitrary: s) (auto split: sum.splits)

lemma for_loop_eq: "for_loop i n body = concat (map body [i..<n])"
proof (induction i n body rule: for_loop.induct)
  case (1 i n body)
  show ?case
  proof (cases "i < n")
    case True
    then show ?thesis
      using "1.IH" by (subst for_loop.simps) (simp add: upt_conv_Cons)
  next
    case False
    then show ?thesis by (subst for_loop.simps) simp
  qed
qed

lemma exec_store_loop:
  "heap s arrA = Some as \<Longrightarrow> heap s arrB = Some bs \<Longrightarrow>
   \<forall>i\<in>set ids. i < length as \<and> i < length bs \<Longrightarrow>
   exec (concat (map (\<lambda>i. [store arrA i v, store arrB i v]) ids)) s =
     Inr (s\<lparr>heap := (heap s)
        (arrA := Some (map (\<lambda>j. if j \<in> set ids then v else as ! j) [0..<length as]),
         arrB := Some (map (\<lambda>j. if j \<in> set ids then v else bs ! j) [0..<length bs]))\<rparr>)"
proof (induction ids arbitrary: s as bs)
  case Nil
  then show ?case by (simp add: map_nth fun_upd_idem)
next
  case (Cons i ids)
  let ?f = "\<lambda>i. [store arrA i v, store arrB i v]"
  let ?s' = "s\<lparr>heap := (heap s)(arrA := Some (as[i := v]), arrB := Some (bs[i := v]))\<rparr>"
  have step: "exec (?f i) s = Inr ?s'"
    using Cons.prems by (simp add: store_def fun_upd_twist)
  have ih: "exec (concat (map ?f ids)) ?s' =
    Inr (?s'\<lparr>heap := (heap ?s')
        (arrA := Some (map (\<lambda>j. if j \<in> set ids then v else as[i := v] ! j) [0..<length (as[i := v])]),
         arrB := Some (map (\<lambda>j. if j \<in> set ids then v else bs[i := v] ! j) [0..<length (bs[i := v])]))\<rparr>)"
    by (rule Cons.IH) (use Cons.prems in auto)
  have a: "map (\<lambda>j. if j \<in> set ids then v else as[i := v] ! j) [0..<length (as[i := v])]
      = map (\<lambda>j. if j \<in> set (i # ids) then v else as ! j) [0..<length as]"
    by (auto simp: nth_list_update)
  have b: "map (\<lambda>j. if j \<in> set ids then v else bs[i := v] ! j) [0..<length (bs[i := v])]
      = map (\<lambda>j. if j \<in> set (i # ids) then v else bs ! j) [0..<length bs]"
    by (auto simp: nth_list_update)
  have "concat (map ?f (i # ids)) = ?f i @ concat (map ?f ids)"
    by simp
  then have "exec (concat (map ?f (i # ids))) s =
      (case exec (?f i) s of Inl x \<Rightarrow> Inl x | Inr s' \<Rightarrow> exec (concat (map ?f ids)) s')"
    by (simp only: exec_append)
  also have "\<dots> = exec (concat (map ?f ids)) ?s'"
    by (simp only: step sum.case)
  also note ih
  finally have "exec (concat (map ?f (i # ids))) s = Inr (?s'\<lparr>heap := (heap ?s')
        (arrA := Some (map (\<lambda>j. if j \<in> set (i # ids) then v else as ! j) [0..<length as]),
         arrB := Some (map (\<lambda>j. if j \<in> set (i # ids) then v else bs ! j) [0..<length bs]))\<rparr>)"
    unfolding a b .
  moreover have "(heap ?s')
        (arrA := Some (map (\<lambda>j. if j \<in> set (i # ids) then v else as ! j) [0..<length as]),
         arrB := Some (map (\<lambda>j. if j \<in> set (i # ids) then v else bs ! j) [0..<length bs]))
     = (heap s)
        (arrA := Some (map (\<lambda>j. if j \<in> set (i # ids) then v else as ! j) [0..<length as]),
         arrB := Some (map (\<lambda>j. if j \<in> set (i # ids) then v else bs ! j) [0..<length bs]))"
    by (rule ext) simp
  moreover have "?s'\<lparr>heap := H\<rparr> = s\<lparr>heap := H\<rparr>" for H
    by simp
  ultimately show ?case
    by (simp only:)
qed

lemma upt_const_replicate: "map (\<lambda>j. v) [0..<n] = replicate n v"
  by (simp add: map_replicate_const)

lemma exec_host_setup:
  "exec (host_setup env) (init_state env) =
     Inr ((init_state env)\<lparr>heap := (\<lambda>p. None)
        (arrC := Some (map (malloc_garbage env arrC) [0..<elements]),
         arrA := Some (replicate elements 1),
         arrB := Some (replicate elements 1))\<rparr>)"
proof -
  let ?s = "(init_state env)\<lparr>heap := (\<lambda>p. None)
        (arrA := Some (map (malloc_garbage env arrA) [0..<elements]),
         arrB := Some (map (malloc_garbage env arrB) [0..<elements]),
         arrC := Some (map (malloc_garbage env arrC) [0..<elements]))\<rparr>"
  have m: "exec [malloc env arrA datasize, malloc env arrB datasize, malloc env arrC datasize]
      (init_state env) = Inr ?s"
    by (simp add: malloc_def datasize_def sizeof_int_def init_state_def)
  have "exec (concat (map (\<lambda>i. [store arrA i 1, store arrB i 1]) [0..<elements])) ?s =
     Inr (?s\<lparr>heap := (heap ?s)
        (arrA := Some (map (\<lambda>j. if j \<in> set [0..<elements] then 1 else
            map (malloc_garbage env arrA) [0..<elements] ! j)
              [0..<length (map (malloc_garbage env arrA) [0..<elements])]),
         arrB := Some (map (\<lambda>j. if j \<in> set [0..<elements] then 1 else
            map (malloc_garbage env arrB) [0..<elements] ! j)
              [0..<length (map (malloc_garbage env arrB) [0..<elements])]))\<rparr>)"
    by (rule exec_store_loop) simp_all
  also have "(map (\<lambda>j. if j \<in> set [0..<elements] then 1 else
            map (malloc_garbage env arrA) [0..<elements] ! j)
              [0..<length (map (malloc_garbage env arrA) [0..<elements])]) = replicate elements 1"
    by (simp add: list_eq_iff_nth_eq)
  also have "(map (\<lambda>j. if j \<in> set [0..<elements] then 1 else
            map (malloc_garbage env arrB) [0..<elements] ! j)
              [0..<length (map (malloc_garbage env arrB) [0..<elements])]) = replicate elements 1"
    by (simp add: list_eq_iff_nth_eq)
  finally have l: "exec (concat (map (\<lambda>i. [store arrA i 1, store arrB i 1]) [0..<elements])) ?s =
     Inr (?s\<lparr>heap := (heap ?s)
        (arrA := Some (replicate elements 1), arrB := Some (replicate elements 1))\<rparr>)" .
  show ?thesis
    unfolding host_setup_def for_loop_eq
    by (simp only: exec_append m l sum.case) (simp add: fun_upd_twist)
qed

subsection \<open>What a successful call changes\<close>

lemma datasize_words: "datasize div sizeof_int = elements"
  by (simp add: datasize_def sizeof_int_def)

lemma vecadd_length:
  "vecadd a b c i m = Some m' \<Longrightarrow> length (m' x) = length (m x)"
  by (auto simp: vecadd_def split: if_splits)

lemma effect_frame:
  "effect env c s = Some s' \<Longrightarrow>
   stdout s' = stdout s \<and> calls s' = calls s \<and> status s' = status s"
  by (cases c) (auto split: option.splits if_splits prod.splits)

lemma effect_heap:
  "effect env c s = Some s' \<Longrightarrow> p \<noteq> arrC \<Longrightarrow> prog_call c \<Longrightarrow> heap s' p = heap s p"
  by (cases c) (auto split: option.splits if_splits prod.splits)

lemma api_Inr:
  "api env c s = Inr (r, s') \<Longrightarrow>
   r = returned env c s \<and> stdout s' = stdout s \<and> calls s' = calls s @ [(c, r)]
   \<and> status s' = status s"
  by (auto simp: api_def Let_def dest: effect_frame split: if_splits option.splits)

lemma api_Inl: "api env c s = Inl x \<Longrightarrow> x = (Fault, s)"
  by (auto simp: api_def Let_def split: if_splits option.splits)

lemma work_items_vecadd_length:
  "work_items (vecadd a b c) ids m = Some m' \<Longrightarrow> length (m' x) = length (m x)"
proof (induction ids arbitrary: m)
  case Nil
  then show ?case by simp
next
  case (Cons i ids)
  then obtain m1 where m1: "vecadd a b c i m = Some m1" "work_items (vecadd a b c) ids m1 = Some m'"
    by (auto split: option.splits)
  from Cons.IH [OF m1(2)] vecadd_length [OF m1(1)] show ?case
    by simp
qed

lemma effect_ok:
  assumes "effect env c s = Some s'" "host_ready s" "dev_sized s" "prog_call c"
    "invalid_arg c s = None"
  shows "host_ready s' \<and> dev_sized s'"
proof (cases c)
  case (clEnqueueNDRangeKernel g l)
  with assms(1) obtain m' a b d where m': "work_items (vecadd a b d) [0..<g] (mem s) = Some m'"
    "s' = s\<lparr>mem := m'\<rparr>"
    by (auto split: option.splits if_splits)
  from work_items_vecadd_length [OF m'(1)] have "length (m' x) = length (mem s x)" for x .
  with assms m'(2) show ?thesis
    by (auto simp: host_ready_def dev_sized_def)
next
  case (clEnqueueReadBuffer b n p)
  then show ?thesis
    using assms
    by (auto simp: host_ready_def dev_sized_def datasize_words split: option.splits if_splits)
next
  case (clEnqueueWriteBuffer b n p)
  then show ?thesis
    using assms
    by (cases p) (auto simp: host_ready_def dev_sized_def datasize_words split: option.splits if_splits)
qed (use assms in \<open>auto simp: host_ready_def dev_sized_def datasize_words split: option.splits if_splits\<close>)

subsection \<open>Program segments keep the invariant or stop the run\<close>

lemma seg_ok_Nil: "seg_ok []"
  by (simp add: seg_ok_def)

lemma seg_ok_append:
  assumes "seg_ok xs" "seg_ok ys"
  shows "seg_ok (xs @ ys)"
  unfolding seg_ok_def
proof (intro allI impI)
  fix s assume inv: "run_inv s"
  show "case exec (xs @ ys) s of Inl x \<Rightarrow> stopped x | Inr s' \<Rightarrow> run_inv s'"
  proof (cases "exec xs s")
    case (Inl x)
    with assms(1) inv show ?thesis
      by (auto simp: seg_ok_def exec_append dest!: spec [of _ s])
  next
    case (Inr s1)
    with assms(1) inv have "run_inv s1"
      by (auto simp: seg_ok_def dest!: spec [of _ s])
    with assms(2) have "case exec ys s1 of Inl x \<Rightarrow> stopped x | Inr s' \<Rightarrow> run_inv s'"
      by (simp add: seg_ok_def)
    then show ?thesis
      by (simp add: exec_append Inr)
  qed
qed

lemma seg_ok_concat: "\<forall>b\<in>set bs. seg_ok b \<Longrightarrow> seg_ok (concat bs)"
  by (induction bs) (auto intro: seg_ok_Nil seg_ok_append)

lemma invalid_arg_not_success: "invalid_arg c s = Some e \<Longrightarrow> sint e < 0"
  by (cases c)
      (auto simp: CL_INVALID_VALUE_def CL_INVALID_PLATFORM_def
        CL_INVALID_DEVICE_def CL_INVALID_CONTEXT_def CL_INVALID_COMMAND_QUEUE_def
        CL_INVALID_MEM_OBJECT_def CL_INVALID_PROGRAM_def CL_INVALID_PROGRAM_EXECUTABLE_def
        CL_INVALID_KERNEL_def CL_INVALID_ARG_INDEX_def CL_INVALID_KERNEL_ARGS_def
        CL_INVALID_WORK_GROUP_SIZE_def CL_INVALID_BUFFER_SIZE_def split: if_splits)

lemma api_ok:
  assumes "host_ready s" "dev_sized s" "prog_call c"
  shows "api env c s = Inl (Fault, s) \<or>
    (\<exists>s'. api env c s = Inr (returned env c s, s') \<and> host_ready s' \<and> dev_sized s'
           \<and> calls s' = calls s @ [(c, returned env c s)])"
proof (cases "returned env c s = CL_SUCCESS")
  case True
  then have none: "invalid_arg c s = None"
    using invalid_arg_not_success [of c s]
    by (cases "invalid_arg c s") (auto simp: returned_def CL_SUCCESS_def)
  show ?thesis
  proof (cases "effect env c s")
    case None
    with True show ?thesis
      by (simp add: api_def)
  next
    case (Some s')
    from effect_ok [OF Some assms none] have "host_ready s'" "dev_sized s'"
      by simp_all
    with True Some show ?thesis
      by (auto simp: api_def Let_def host_ready_def dev_sized_def)
  qed
next
  case False
  then show ?thesis
    using assms by (auto simp: api_def Let_def host_ready_def dev_sized_def)
qed

lemma failed_checks_append:
  "failed_checks (l @ [(c, r)]) =
     failed_checks l @ (if checked c \<and> sint r < 0 then [(c, r)] else [])"
  by (simp add: failed_checks_def)

lemma seg_ok_assign:
  assumes "prog_call c" "\<not> checked c"
  shows "seg_ok [assign_status env c]"
  unfolding seg_ok_def run_inv_def
proof (intro allI impI)
  fix s assume inv: "host_ready s \<and> dev_sized s \<and> failed_checks (calls s) = []"
  with api_ok [of s c env] assms inv
  show "case exec [assign_status env c] s of
       Inl x \<Rightarrow> stopped x
       | Inr s' \<Rightarrow> host_ready s' \<and> dev_sized s' \<and> failed_checks (calls s') = []"
    by (auto simp: assign_status_def failed_checks_append host_ready_def dev_sized_def stopped_def)
qed

lemma seg_ok_discard:
  assumes "prog_call c" "\<not> checked c"
  shows "seg_ok [discard env c]"
  unfolding seg_ok_def run_inv_def
proof (intro allI impI)
  fix s assume inv: "host_ready s \<and> dev_sized s \<and> failed_checks (calls s) = []"
  with api_ok [of s c env] assms inv
  show "case exec [discard env c] s of
       Inl x \<Rightarrow> stopped x
       | Inr s' \<Rightarrow> host_ready s' \<and> dev_sized s' \<and> failed_checks (calls s') = []"
    by (auto simp: discard_def failed_checks_append stopped_def)
qed

lemma seg_ok_checked:
  assumes "prog_call c" "checked c"
  shows "seg_ok [assign_status env c, check_status]"
  unfolding seg_ok_def run_inv_def
proof (intro allI impI)
  fix s assume inv: "host_ready s \<and> dev_sized s \<and> failed_checks (calls s) = []"
  with api_ok [of s c env] assms inv
  show "case exec [assign_status env c, check_status] s of
       Inl x \<Rightarrow> stopped x
       | Inr s' \<Rightarrow> host_ready s' \<and> dev_sized s' \<and> failed_checks (calls s') = []"
    by (auto simp: assign_status_def check_status_def check_def failed_checks_append
        host_ready_def dev_sized_def stopped_def)
qed

lemma seg_ok_printf: "seg_ok [printf_s str]"
  by (simp add: seg_ok_def run_inv_def printf_s_def host_ready_def dev_sized_def)

lemma offload_blocks:
  "offload env = concat
     [[assign_status env clGetPlatformIDs],
      [assign_status env clGetDeviceIDs],
      [assign_status env clCreateContext],
      [assign_status env clCreateCommandQueueWithPropertiesAPPLE],
      [assign_status env (clCreateBuffer bufA datasize)],
      [assign_status env (clCreateBuffer bufB datasize)],
      [assign_status env (clCreateBuffer bufC datasize)],
      [assign_status env (clEnqueueWriteBuffer bufA datasize arrA)],
      [assign_status env (clEnqueueWriteBuffer bufB datasize arrB)],
      [printf_s (''Create a program with source code'' @ [nl])],
      [assign_status env clCreateProgramWithSource, check_status],
      [printf_s (''Build (compile) the program for the device'' @ [nl])],
      [assign_status env clBuildProgram, check_status],
      [printf_s (''Create the vector addition kernel'' @ [nl])],
      [assign_status env clCreateKernel, check_status],
      [printf_s (''Set the kernel arguments'' @ [nl])],
      [assign_status env (clSetKernelArg 0 bufA)],
      [assign_status env (clSetKernelArg 1 bufB)],
      [assign_status env (clSetKernelArg 2 bufC), check_status],
      [printf_s (''Execute the kernel'' @ [nl])],
      [assign_status env (clEnqueueNDRangeKernel indexSpaceSize workGroupSize), check_status],
      [printf_s (''The kernel has finished execution on the device'' @ [nl])],
      [printf_s (''Read the device output buffer to the host output array'' @ [nl])],
      [assign_status env (clEnqueueReadBuffer bufC datasize arrC)]]"
  by (simp add: offload_def)

lemma seg_ok_offload: "seg_ok (offload env)"
  unfolding offload_blocks
  by (rule seg_ok_concat) (simp add: seg_ok_assign seg_ok_checked seg_ok_printf)

lemma seg_ok_each: "\<forall>c\<in>set cs. seg_ok [c] \<Longrightarrow> seg_ok cs"
proof (induction cs)
  case Nil
  show ?case by (rule seg_ok_Nil)
next
  case (Cons c cs)
  then have "seg_ok ([c] @ cs)"
    by (intro seg_ok_append) simp_all
  then show ?case by simp
qed

lemma seg_ok_release: "seg_ok (release env)"
  by (rule seg_ok_each) (simp add: release_def seg_ok_discard)

subsection \<open>Standard output and call record of the device part; the print loop\<close>

lemma exec_appends:
  "list_all2 (appends f) cs ds \<Longrightarrow> exec cs s = Inr s' \<Longrightarrow> f s' = f s @ concat ds"
proof (induction cs ds arbitrary: s rule: list_all2_induct)
  case Nil
  then show ?case by simp
next
  case (Cons c cs d ds)
  from Cons.prems obtain s1 where s1: "c s = Inr s1" "exec cs s1 = Inr s'"
    by (auto split: sum.splits)
  with Cons.hyps(1) have "f s1 = f s @ d"
    by (simp add: appends_def)
  moreover from s1 Cons.IH have "f s' = f s1 @ concat ds"
    by simp
  ultimately show ?case by simp
qed

lemma appends_assign_stdout: "appends stdout (assign_status env c) []"
  by (auto simp: appends_def assign_status_def dest: api_Inr split: sum.splits)

lemma appends_discard_stdout: "appends stdout (discard env c) []"
  by (auto simp: appends_def discard_def dest: api_Inr split: sum.splits)

lemma appends_check_stdout: "appends stdout check_status []"
  by (auto simp: appends_def check_status_def check_def split: if_splits)

lemma appends_printf_stdout: "appends stdout (printf_s str) str"
  by (auto simp: appends_def printf_s_def)

lemma appends_assign_calls: "appends (\<lambda>s. map fst (calls s)) (assign_status env c) [c]"
  by (auto simp: appends_def assign_status_def dest: api_Inr split: sum.splits)

lemma appends_discard_calls: "appends (\<lambda>s. map fst (calls s)) (discard env c) [c]"
  by (auto simp: appends_def discard_def dest: api_Inr split: sum.splits)

lemma appends_check_calls: "appends (\<lambda>s. map fst (calls s)) check_status []"
  by (auto simp: appends_def check_status_def check_def split: if_splits)

lemma appends_printf_calls: "appends (\<lambda>s. map fst (calls s)) (printf_s str) []"
  by (auto simp: appends_def printf_s_def)

lemmas appends_stdout =
  appends_assign_stdout appends_discard_stdout appends_check_stdout appends_printf_stdout

lemmas appends_calls =
  appends_assign_calls appends_discard_calls appends_check_calls appends_printf_calls

lemma device_part_stdout:
  assumes "exec (offload env @ release env) s = Inr s'"
  shows "stdout s' = stdout s @ lines_text progress_lines"
proof -
  have "list_all2 (appends stdout) (offload env @ release env)
     [[], [], [], [], [], [], [], [], [],
      ''Create a program with source code'' @ [nl], [], [],
      ''Build (compile) the program for the device'' @ [nl], [], [],
      ''Create the vector addition kernel'' @ [nl], [], [],
      ''Set the kernel arguments'' @ [nl], [], [], [], [],
      ''Execute the kernel'' @ [nl], [], [],
      ''The kernel has finished execution on the device'' @ [nl],
      ''Read the device output buffer to the host output array'' @ [nl], [],
      [], [], [], [], [], [], []]"
    unfolding offload_def release_def
    by (simp add: appends_stdout)
  from exec_appends [OF this assms] show ?thesis
    by (simp add: lines_text_def progress_lines_def)
qed

lemma device_part_calls:
  assumes "exec (offload env @ release env) s = Inr s'"
  shows "map fst (calls s') = map fst (calls s) @ program_calls"
proof -
  have "list_all2 (appends (\<lambda>s. map fst (calls s))) (offload env @ release env)
     [[clGetPlatformIDs], [clGetDeviceIDs], [clCreateContext], [clCreateCommandQueueWithPropertiesAPPLE],
      [clCreateBuffer bufA datasize], [clCreateBuffer bufB datasize],
      [clCreateBuffer bufC datasize],
      [clEnqueueWriteBuffer bufA datasize arrA], [clEnqueueWriteBuffer bufB datasize arrB],
      [], [clCreateProgramWithSource], [],
      [], [clBuildProgram], [],
      [], [clCreateKernel], [],
      [], [clSetKernelArg 0 bufA], [clSetKernelArg 1 bufB], [clSetKernelArg 2 bufC], [],
      [], [clEnqueueNDRangeKernel indexSpaceSize workGroupSize], [],
      [], [], [clEnqueueReadBuffer bufC datasize arrC],
      [clReleaseKernel], [clReleaseProgram], [clReleaseCommandQueue],
      [clReleaseMemObject bufA], [clReleaseMemObject bufB], [clReleaseMemObject bufC],
      [clReleaseContext]]"
    unfolding offload_def release_def
    by (simp add: appends_calls)
  from exec_appends [OF this assms] show ?thesis
    by (simp add: program_calls_def)
qed

lemma exec_print_loop:
  "heap s arrC = Some cs \<Longrightarrow> \<forall>i\<in>set ids. i < length cs \<Longrightarrow>
   exec (concat (map (\<lambda>i. [printf_d arrC i, printf_s [nl]]) ids)) s =
     Inr (s\<lparr>stdout := stdout s @ concat (map (\<lambda>i. decimal (sint (cs ! i)) @ [nl]) ids)\<rparr>)"
proof (induction ids arbitrary: s)
  case Nil
  then show ?case by simp
next
  case (Cons i ids)
  let ?f = "\<lambda>i. [printf_d arrC i, printf_s [nl]]"
  let ?s' = "s\<lparr>stdout := stdout s @ decimal (sint (cs ! i)) @ [nl]\<rparr>"
  have step: "exec (?f i) s = Inr ?s'"
    using Cons.prems by (simp add: printf_d_def printf_s_def)
  have ih: "exec (concat (map ?f ids)) ?s' =
     Inr (?s'\<lparr>stdout := stdout ?s' @ concat (map (\<lambda>i. decimal (sint (cs ! i)) @ [nl]) ids)\<rparr>)"
    by (rule Cons.IH) (use Cons.prems in auto)
  have "concat (map ?f (i # ids)) = ?f i @ concat (map ?f ids)"
    by simp
  then have "exec (concat (map ?f (i # ids))) s =
      (case exec (?f i) s of Inl x \<Rightarrow> Inl x | Inr s' \<Rightarrow> exec (concat (map ?f ids)) s')"
    by (simp only: exec_append)
  also have "\<dots> = exec (concat (map ?f ids)) ?s'"
    by (simp only: step sum.case)
  also note ih
  finally show ?case
    by simp
qed

lemma exec_print_output:
  assumes "heap s arrC = Some cs" "length cs = elements"
  shows "exec print_output s =
     Inr (s\<lparr>stdout := stdout s @ lines_text (map (\<lambda>x. decimal (sint x)) cs)\<rparr>)"
proof -
  have "map (\<lambda>i. decimal (sint (cs ! i)) @ [nl]) [0..<elements]
      = map (\<lambda>l. l @ [nl]) (map (\<lambda>x. decimal (sint x)) cs)"
    using assms(2) by (simp add: list_eq_iff_nth_eq)
  moreover have "exec (concat (map (\<lambda>i. [printf_d arrC i, printf_s [nl]]) [0..<elements])) s =
     Inr (s\<lparr>stdout := stdout s @ concat (map (\<lambda>i. decimal (sint (cs ! i)) @ [nl]) [0..<elements])\<rparr>)"
    by (rule exec_print_loop) (use assms in auto)
  ultimately show ?thesis
    by (simp add: print_output_def for_loop_eq lines_text_def)
qed

lemma exec_host_cleanup:
  "exec host_cleanup s =
     Inl (Exit 0, s\<lparr>heap := (heap s)(arrA := None, arrB := None, arrC := None)\<rparr>)"
  by (simp add: host_cleanup_def free_def return_main_def)

subsection \<open>How a run ends\<close>

lemma main_body_split:
  "main_body env = host_setup env @ (offload env @ release env) @ (print_output @ host_cleanup)"
  by (simp add: main_body_def)

lemma run_inv_setup:
  "run_inv ((init_state env)\<lparr>heap := (\<lambda>p. None)
        (arrC := Some (map (malloc_garbage env arrC) [0..<elements]),
         arrA := Some (replicate elements 1),
         arrB := Some (replicate elements 1))\<rparr>)"
  by (simp add: run_inv_def host_ready_def dev_sized_def init_state_def failed_checks_def)

lemma main_cases:
  "(pre_print env = Inl (main env) \<and> stopped (main env)) \<or>
   (\<exists>s cs. pre_print env = Inr s \<and> heap s arrC = Some cs \<and> length cs = elements
      \<and> failed_checks (calls s) = [] \<and> stdout s = lines_text progress_lines
      \<and> map fst (calls s) = program_calls
      \<and> main env = (Exit 0, s\<lparr>stdout := stdout s @ lines_text (map (\<lambda>x. decimal (sint x)) cs),
                         heap := (heap s)(arrA := None, arrB := None, arrC := None)\<rparr>))"
proof -
  let ?s1 = "(init_state env)\<lparr>heap := (\<lambda>p. None)
        (arrC := Some (map (malloc_garbage env arrC) [0..<elements]),
         arrA := Some (replicate elements 1),
         arrB := Some (replicate elements 1))\<rparr>"
  have hs: "exec (host_setup env) (init_state env) = Inr ?s1"
    by (rule exec_host_setup)
  have inv1: "run_inv ?s1"
    by (rule run_inv_setup)
  have ok: "seg_ok (offload env @ release env)"
    by (intro seg_ok_append seg_ok_offload seg_ok_release)
  show ?thesis
  proof (cases "exec (offload env @ release env) ?s1")
    case (Inl x)
    with ok inv1 have x: "stopped x"
      by (auto simp: seg_ok_def dest!: spec [of _ ?s1])
    have "main env = x"
      by (simp add: main_def main_body_split exec_append [of "host_setup env"]
          exec_append [of "offload env @ release env"] hs Inl del: append_assoc)
    moreover have "pre_print env = Inl x"
      unfolding pre_print_def
      using exec_append [of "host_setup env" "offload env @ release env" "init_state env"]
      by (simp add: hs Inl)
    ultimately show ?thesis
      using x by simp
  next
    case (Inr s)
    with ok inv1 have inv: "run_inv s"
      by (auto simp: seg_ok_def dest!: spec [of _ ?s1])
    then obtain cs where cs: "heap s arrC = Some cs" "length cs = elements"
      by (auto simp: run_inv_def host_ready_def split: option.splits)
    have pp: "pre_print env = Inr s"
      unfolding pre_print_def
      using exec_append [of "host_setup env" "offload env @ release env" "init_state env"]
      by (simp add: hs Inr)
    have out: "stdout s = lines_text progress_lines"
      using device_part_stdout [OF Inr] by (simp add: init_state_def)
    have log: "map fst (calls s) = program_calls"
      using device_part_calls [OF Inr] by (simp add: init_state_def)
    have "exec (print_output @ host_cleanup) s =
        Inl (Exit 0, s\<lparr>stdout := stdout s @ lines_text (map (\<lambda>x. decimal (sint x)) cs),
                         heap := (heap s)(arrA := None, arrB := None, arrC := None)\<rparr>)"
      by (simp add: exec_append exec_print_output [OF cs] exec_host_cleanup)
    then have "main env = (Exit 0, s\<lparr>stdout := stdout s @ lines_text (map (\<lambda>x. decimal (sint x)) cs),
                         heap := (heap s)(arrA := None, arrB := None, arrC := None)\<rparr>)"
      by (simp add: main_def main_body_split exec_append [of "host_setup env"]
          exec_append [of "offload env @ release env"] hs Inr del: append_assoc)
    with pp cs out log inv show ?thesis
      by (auto simp: run_inv_def)
  qed
qed

lemma main_success:
  assumes "fst (main env) = Exit 0"
  shows "\<exists>s cs. pre_print env = Inr s \<and> heap s arrC = Some cs \<and> length cs = elements
      \<and> failed_checks (calls s) = [] \<and> stdout s = lines_text progress_lines
      \<and> map fst (calls s) = program_calls
      \<and> main env = (Exit 0, s\<lparr>stdout := stdout s @ lines_text (map (\<lambda>x. decimal (sint x)) cs),
                         heap := (heap s)(arrA := None, arrB := None, arrC := None)\<rparr>)"
  using main_cases [of env] assms by (auto simp: stopped_def)

lemma digit_not_nl: "d < 10 \<Longrightarrow> digit d \<noteq> nl"
proof
  assume d: "d < 10" and "digit d = nl"
  then have "of_char (char_of (48 + d) :: char) = (of_char nl :: nat)"
    by (simp add: digit_def)
  with d show False by simp
qed

lemma digits_no_nl: "nl \<notin> set (digits n)"
proof (induction n rule: digits.induct)
  case (1 n)
  show ?case
  proof (cases "n < 10")
    case True
    then show ?thesis
      using digit_not_nl [of n] by (subst digits.simps) auto
  next
    case False
    then show ?thesis
      using "1.IH" digit_not_nl [of "n mod 10"] by (subst digits.simps) auto
  qed
qed

lemma decimal_no_nl: "nl \<notin> set (decimal x)"
  by (simp add: decimal_def digits_no_nl)

lemma lines_text_append: "lines_text (xs @ ys) = lines_text xs @ lines_text ys"
  by (simp add: lines_text_def)

subsection \<open>Properties kept by every statement\<close>

lemma points_preserves:
  "\<forall>c\<in>set cs. preserves I c \<Longrightarrow> I s \<Longrightarrow> \<forall>s'\<in>set (points cs s). I s'"
proof (induction cs arbitrary: s)
  case Nil
  then show ?case by simp
next
  case (Cons c cs)
  from Cons.prems have c: "case c s of Inl x \<Rightarrow> I (snd x) | Inr s' \<Rightarrow> I s'"
    by (simp add: preserves_def)
  show ?case
  proof (cases "c s")
    case (Inl x)
    with c show ?thesis by simp
  next
    case (Inr s1)
    with c have s1: "I s1" by simp
    from Cons.prems(1) have "\<forall>c\<in>set cs. preserves I c"
      by simp
    from Cons.IH [OF this s1] Inr s1 show ?thesis by simp
  qed
qed

lemma exec_preserves:
  "\<forall>c\<in>set cs. preserves I c \<Longrightarrow> I s \<Longrightarrow>
   (case exec cs s of Inl x \<Rightarrow> I (snd x) | Inr s' \<Rightarrow> I s')"
proof (induction cs arbitrary: s)
  case Nil
  then show ?case by simp
next
  case (Cons c cs)
  from Cons.prems have c: "case c s of Inl x \<Rightarrow> I (snd x) | Inr s' \<Rightarrow> I s'"
    by (simp add: preserves_def)
  show ?case
  proof (cases "c s")
    case (Inl x)
    with c show ?thesis by simp
  next
    case (Inr s1)
    with c have s1: "I s1" by simp
    from Cons.prems(1) have "\<forall>c\<in>set cs. preserves I c"
      by simp
    from Cons.IH [OF this s1] Inr show ?thesis by simp
  qed
qed

lemma length_points_le: "length (points cs s) \<le> length cs"
  by (induction cs arbitrary: s) (auto split: sum.splits)

lemma points_Inr_length: "exec cs s = Inr s' \<Longrightarrow> length (points cs s) = length cs"
  by (induction cs arbitrary: s) (auto split: sum.splits)

lemma points_Inr_last: "exec cs s = Inr s' \<Longrightarrow> cs \<noteq> [] \<Longrightarrow> last (points cs s) = s'"
proof (induction cs arbitrary: s)
  case Nil
  then show ?case by simp
next
  case (Cons c cs)
  then obtain s1 where s1: "c s = Inr s1" "exec cs s1 = Inr s'"
    by (auto split: sum.splits)
  show ?case
  proof (cases "cs = []")
    case True
    with s1 show ?thesis by simp
  next
    case False
    with s1 Cons.IH have "last (points cs s1) = s'"
      by simp
    moreover from False s1 have "points cs s1 \<noteq> []"
      using points_Inr_length [of cs s1 s'] by auto
    ultimately show ?thesis
      using s1 by simp
  qed
qed

lemma api_heap:
  "api env c s = Inr (r, s') \<Longrightarrow> prog_call c \<Longrightarrow> p \<noteq> arrC \<Longrightarrow> heap s' p = heap s p"
  by (auto simp: api_def Let_def dest: effect_heap split: if_splits option.splits)

lemma preserves_assign:
  "prog_call c \<Longrightarrow> preserves inputs_ones (assign_status env c)"
  by (auto simp: preserves_def assign_status_def inputs_ones_def
      dest: api_heap api_Inl split: sum.splits)

lemma preserves_discard:
  "prog_call c \<Longrightarrow> preserves inputs_ones (discard env c)"
  by (auto simp: preserves_def discard_def inputs_ones_def
      dest: api_heap api_Inl split: sum.splits)

lemma preserves_check: "preserves inputs_ones check_status"
  by (simp add: preserves_def check_status_def check_def inputs_ones_def)

lemma preserves_printf: "preserves inputs_ones (printf_s str)"
  by (simp add: preserves_def printf_s_def inputs_ones_def)

lemma preserves_printf_d: "preserves inputs_ones (printf_d p i)"
  by (simp add: preserves_def printf_d_def inputs_ones_def split: option.splits)

lemma preserves_offload: "\<forall>c\<in>set (offload env). preserves inputs_ones c"
  by (simp add: offload_def preserves_assign preserves_check preserves_printf)

lemma preserves_release: "\<forall>c\<in>set (release env). preserves inputs_ones c"
  by (simp add: release_def preserves_discard)

lemma preserves_print_output: "\<forall>c\<in>set print_output. preserves inputs_ones c"
  by (auto simp: print_output_def for_loop_eq preserves_printf preserves_printf_d)

lemma preserves_device_part:
  "\<forall>c\<in>set (offload env @ release env @ print_output). preserves inputs_ones c"
  using preserves_offload preserves_release preserves_print_output by auto

lemma preserves_cleanup: "\<forall>c\<in>set host_cleanup. preserves ones_or_freed c"
  by (auto simp: host_cleanup_def preserves_def free_def return_main_def ones_or_freed_def)

subsection \<open>The points of a run and the calls it records\<close>

lemma after_init_eq:
  "\<exists>s1 ps. exec (host_setup env) (init_state env) = Inr s1 \<and> inputs_ones s1
     \<and> after_init env = s1 # ps
     \<and> until_printed env = s1 # points (offload env @ release env @ print_output) s1
     \<and> (ps = points (offload env @ release env @ print_output) s1 \<or>
         (\<exists>s2. exec (offload env @ release env @ print_output) s1 = Inr s2 \<and>
           ps = points (offload env @ release env @ print_output) s1 @ points host_cleanup s2))"
proof -
  let ?hs = "host_setup env" and ?mid = "offload env @ release env @ print_output"
  let ?s1 = "(init_state env)\<lparr>heap := (\<lambda>p. None)
        (arrC := Some (map (malloc_garbage env arrC) [0..<elements]),
         arrA := Some (replicate elements 1),
         arrB := Some (replicate elements 1))\<rparr>"
  have hs: "exec ?hs (init_state env) = Inr ?s1"
    by (rule exec_host_setup)
  have ones: "inputs_ones ?s1"
    by (simp add: inputs_ones_def)
  have len: "length (points ?hs (init_state env)) = length ?hs"
    using hs by (rule points_Inr_length)
  have ne: "?hs \<noteq> []"
    by (simp add: host_setup_def)
  then have lst: "last (points ?hs (init_state env)) = ?s1"
    using hs by (intro points_Inr_last)
  have "drop (length ?hs - 1) (points ?hs (init_state env)) = [?s1]"
  proof -
    have "points ?hs (init_state env) \<noteq> []"
      using len ne by auto
    then have "points ?hs (init_state env)
        = butlast (points ?hs (init_state env)) @ [last (points ?hs (init_state env))]"
      by simp
    moreover have "length (butlast (points ?hs (init_state env))) = length ?hs - 1"
      using len by simp
    ultimately show ?thesis
      using lst by (metis append_eq_conv_conj)
  qed
  moreover have "main_body env = ?hs @ (?mid @ host_cleanup)"
    by (simp add: main_body_def)
  ultimately have ai: "after_init env = ?s1 # points (?mid @ host_cleanup) ?s1"
    using len by (simp add: after_init_def run_points_def points_append hs)
  show ?thesis
  proof (cases "exec ?mid ?s1")
    case (Inl x)
    then have p: "points (?mid @ host_cleanup) ?s1 = points ?mid ?s1"
      by (simp only: points_append sum.case)
    then have "until_printed env = ?s1 # points ?mid ?s1"
      using length_points_le [of ?mid ?s1] by (simp add: until_printed_def ai)
    with hs ones ai p show ?thesis
      by blast
  next
    case (Inr s2)
    then have p: "points (?mid @ host_cleanup) ?s1 = points ?mid ?s1 @ points host_cleanup s2"
      by (simp only: points_append sum.case)
    then have "until_printed env = ?s1 # points ?mid ?s1"
      using points_Inr_length [OF Inr] by (simp add: until_printed_def ai)
    with hs ones ai p Inr show ?thesis
      by blast
  qed
qed

lemma inputs_ones_imp: "inputs_ones s \<Longrightarrow> ones_or_freed s"
  by (simp add: inputs_ones_def ones_or_freed_def)

lemma known_assign: "c \<in> set program_calls \<Longrightarrow> preserves known_calls (assign_status env c)"
  by (auto simp: preserves_def assign_status_def known_calls_def
      dest!: api_Inr api_Inl split: sum.splits)

lemma known_discard: "c \<in> set program_calls \<Longrightarrow> preserves known_calls (discard env c)"
  by (auto simp: preserves_def discard_def known_calls_def
      dest!: api_Inr api_Inl split: sum.splits)

lemma known_other:
  "preserves known_calls check_status" "preserves known_calls (printf_s str)"
  "preserves known_calls (printf_d p i)" "preserves known_calls (store p i v)"
  "preserves known_calls (malloc env p n)" "preserves known_calls (free p)"
  "preserves known_calls (return_main e)"
  by (simp_all add: preserves_def known_calls_def check_status_def check_def printf_s_def
      printf_d_def store_def malloc_def free_def return_main_def split: option.splits)

lemma known_main_body: "\<forall>c\<in>set (main_body env). preserves known_calls c"
proof -
  have "\<forall>c\<in>set (host_setup env). preserves known_calls c"
    by (auto simp: host_setup_def for_loop_eq known_other)
  moreover have "\<forall>c\<in>set (offload env). preserves known_calls c"
    by (simp add: offload_def known_assign known_other program_calls_def)
  moreover have "\<forall>c\<in>set (release env). preserves known_calls c"
    by (simp add: release_def known_discard program_calls_def)
  moreover have "\<forall>c\<in>set print_output. preserves known_calls c"
    by (auto simp: print_output_def for_loop_eq known_other)
  moreover have "\<forall>c\<in>set host_cleanup. preserves known_calls c"
    by (simp add: host_cleanup_def known_other)
  ultimately show ?thesis
    by (auto simp: main_body_def)
qed

lemma known_calls_main: "known_calls (snd (main env))"
proof -
  have "known_calls (init_state env)"
    by (simp add: known_calls_def init_state_def)
  with known_main_body have
    "case exec (main_body env) (init_state env) of Inl x \<Rightarrow> known_calls (snd x)
       | Inr s' \<Rightarrow> known_calls s'"
    by (rule exec_preserves)
  then show ?thesis
    by (cases "exec (main_body env) (init_state env)") (simp_all add: main_def)
qed

subsection \<open>The kernel, and runs in the sample environments\<close>

text \<open>What a dispatch of \<open>vecadd\<close> over the work-items \<open>ids\<close> computes, when the output
  buffer is not one of the input buffers.\<close>

lemma work_items_vecadd:
  "a \<noteq> c \<Longrightarrow> b \<noteq> c \<Longrightarrow>
   \<forall>i\<in>set ids. i < length (m a) \<and> i < length (m b) \<and> i < length (m c) \<Longrightarrow>
   work_items (vecadd a b c) ids m =
     Some (m(c := map (\<lambda>j. if j \<in> set ids then m a ! j + m b ! j else m c ! j)
                     [0..<length (m c)]))"
proof (induction ids arbitrary: m)
  case Nil
  then show ?case by (simp add: map_nth)
next
  case (Cons i ids)
  let ?m1 = "m(c := (m c)[i := m a ! i + m b ! i])"
  have step: "vecadd a b c i m = Some ?m1"
    using Cons.prems by (simp add: vecadd_def)
  have ih: "work_items (vecadd a b c) ids ?m1 =
     Some (?m1(c := map (\<lambda>j. if j \<in> set ids then ?m1 a ! j + ?m1 b ! j else ?m1 c ! j)
                     [0..<length (?m1 c)]))"
    by (rule Cons.IH) (use Cons.prems in auto)
  have eq: "map (\<lambda>j. if j \<in> set ids then ?m1 a ! j + ?m1 b ! j else ?m1 c ! j)
                     [0..<length (?m1 c)]
      = map (\<lambda>j. if j \<in> set (i # ids) then m a ! j + m b ! j else m c ! j) [0..<length (m c)]"
    using Cons.prems by (auto simp: nth_list_update)
  have upd: "?m1(c := X) = m(c := X)" for X
    by simp
  have "work_items (vecadd a b c) (i # ids) m = work_items (vecadd a b c) ids ?m1"
    using step by simp
  also note ih
  finally show ?case
    unfolding eq upd .
qed

text \<open>The work-items of \<open>vecadd\<close> write disjoint elements of the output buffer and read
  only the input buffers, so the order in which they run does not matter.\<close>

lemma work_items_order_irrelevant:
  assumes "a \<noteq> c" "b \<noteq> c" "set ids = set ids'"
    "\<forall>i\<in>set ids. i < length (m a) \<and> i < length (m b) \<and> i < length (m c)"
  shows "work_items (vecadd a b c) ids m = work_items (vecadd a b c) ids' m"
proof -
  from assms have "\<forall>i\<in>set ids'. i < length (m a) \<and> i < length (m b) \<and> i < length (m c)"
    by simp
  from work_items_vecadd [OF assms(1,2,4)] work_items_vecadd [OF assms(1,2) this] assms(3)
  show ?thesis by simp
qed

lemma cl_ne:
  "CL_INVALID_VALUE \<noteq> CL_SUCCESS" "CL_INVALID_PLATFORM \<noteq> CL_SUCCESS"
  "CL_INVALID_DEVICE \<noteq> CL_SUCCESS" "CL_INVALID_CONTEXT \<noteq> CL_SUCCESS"
  "CL_INVALID_COMMAND_QUEUE \<noteq> CL_SUCCESS" "CL_INVALID_MEM_OBJECT \<noteq> CL_SUCCESS"
  "CL_INVALID_PROGRAM \<noteq> CL_SUCCESS" "CL_INVALID_PROGRAM_EXECUTABLE \<noteq> CL_SUCCESS"
  "CL_INVALID_KERNEL \<noteq> CL_SUCCESS" "CL_INVALID_ARG_INDEX \<noteq> CL_SUCCESS"
  "CL_INVALID_KERNEL_ARGS \<noteq> CL_SUCCESS" "CL_INVALID_WORK_GROUP_SIZE \<noteq> CL_SUCCESS"
  "CL_INVALID_BUFFER_SIZE \<noteq> CL_SUCCESS"
  by (simp_all add: CL_SUCCESS_def CL_INVALID_VALUE_def CL_INVALID_PLATFORM_def
        CL_INVALID_DEVICE_def CL_INVALID_CONTEXT_def CL_INVALID_COMMAND_QUEUE_def
        CL_INVALID_MEM_OBJECT_def CL_INVALID_PROGRAM_def CL_INVALID_PROGRAM_EXECUTABLE_def
        CL_INVALID_KERNEL_def CL_INVALID_ARG_INDEX_def CL_INVALID_KERNEL_ARGS_def
        CL_INVALID_WORK_GROUP_SIZE_def CL_INVALID_BUFFER_SIZE_def)

lemma sint_success: "sint CL_SUCCESS = 0"
  by (simp add: CL_SUCCESS_def)

lemma elements_facts:
  "datasize div sizeof_int = elements" "datasize \<noteq> 0" "indexSpaceSize = elements"
  "workGroupSize \<noteq> 0" "elements mod workGroupSize = 0"
  by (simp_all add: datasize_def sizeof_int_def elements_def indexSpaceSize_def workGroupSize_def)

lemma sint_invalid:
  "sint CL_INVALID_CONTEXT < 0"
  by (simp add: CL_INVALID_CONTEXT_def)

lemma vecadd_run:
  assumes "length (m bufA) = n" "length (m bufB) = n" "length (m bufC) = n"
  shows "work_items (vecadd bufA bufB bufC) [0..<n] m =
     Some (m(bufC := map2 (+) (m bufA) (m bufB)))"
proof -
  have "work_items (vecadd bufA bufB bufC) [0..<n] m =
     Some (m(bufC := map (\<lambda>j. if j \<in> set [0..<n] then m bufA ! j + m bufB ! j else m bufC ! j)
                     [0..<length (m bufC)]))"
    by (rule work_items_vecadd) (use assms in auto)
  moreover have "map (\<lambda>j. if j \<in> set [0..<n] then m bufA ! j + m bufB ! j else m bufC ! j)
                     [0..<length (m bufC)] = map2 (+) (m bufA) (m bufB)"
    using assms by (simp add: list_eq_iff_nth_eq)
  ultimately show ?thesis by (simp only:)
qed

lemmas run_simps = offload_def release_def assign_status_def discard_def api_def returned_def
  init_state_def check_status_def check_def printf_s_def cl_ne sint_success sint_invalid
  elements_facts vecadd_run

lemma pre_print_eq:
  "pre_print env = exec (offload env @ release env)
     ((init_state env)\<lparr>heap := (\<lambda>p. None)
        (arrC := Some (map (malloc_garbage env arrC) [0..<elements]),
         arrA := Some (replicate elements 1),
         arrB := Some (replicate elements 1))\<rparr>)"
  unfolding pre_print_def
  using exec_append [of "host_setup env" "offload env @ release env" "init_state env"]
  by (simp add: exec_host_setup)

lemma pre_print_all_success:
  assumes "\<And>c. api_status env c = CL_SUCCESS"
  shows "\<exists>s. pre_print env = Inr s \<and> heap s arrC = Some (replicate elements 2)"
  unfolding pre_print_eq
  by (simp add: run_simps assms del: upt_rec_numeral)

lemma pre_print_readback_fails:
  "\<exists>s. pre_print env_readback_fails = Inr s \<and> heap s arrC = Some (replicate elements 0)
     \<and> (clEnqueueReadBuffer bufC datasize arrC, - 5) \<in> set (calls s)"
  unfolding pre_print_eq
  by (simp add: run_simps env_readback_fails_def env_ok_def upt_const_replicate CL_SUCCESS_def
      del: upt_rec_numeral)

lemma pre_print_upload_fails:
  "\<exists>s. pre_print env_upload_fails = Inr s \<and> heap s arrC = Some (replicate elements 1)
     \<and> (clEnqueueWriteBuffer bufA datasize arrA, - 4) \<in> set (calls s)"
  unfolding pre_print_eq
  by (simp add: run_simps env_upload_fails_def env_ok_def upt_const_replicate CL_SUCCESS_def
      del: upt_rec_numeral)

lemma pre_print_no_platform:
  assumes "api_status env clGetPlatformIDs \<noteq> CL_SUCCESS"
  shows "\<exists>s. pre_print env = Inl (Exit (- 1), s)
     \<and> stdout s = lines_text [''Create a program with source code'', ''ERROR. Exiting...'']
     \<and> calls s =
         [(clGetPlatformIDs, api_status env clGetPlatformIDs),
          (clGetDeviceIDs, CL_INVALID_PLATFORM),
          (clCreateContext, CL_INVALID_DEVICE),
          (clCreateCommandQueueWithPropertiesAPPLE, CL_INVALID_CONTEXT),
          (clCreateBuffer bufA datasize, CL_INVALID_CONTEXT),
          (clCreateBuffer bufB datasize, CL_INVALID_CONTEXT),
          (clCreateBuffer bufC datasize, CL_INVALID_CONTEXT),
          (clEnqueueWriteBuffer bufA datasize arrA, CL_INVALID_COMMAND_QUEUE),
          (clEnqueueWriteBuffer bufB datasize arrB, CL_INVALID_COMMAND_QUEUE),
          (clCreateProgramWithSource, CL_INVALID_CONTEXT)]"
  unfolding pre_print_eq
  by (simp add: run_simps Let_def assms lines_text_def del: upt_rec_numeral)

lemma pre_print_buffer_fails:
  "\<exists>s. pre_print env_buffer_fails = Inl (Fault, s)
     \<and> (clCreateBuffer bufA datasize, - 4) \<in> set (calls s)"
  unfolding pre_print_eq
  by (simp add: run_simps env_buffer_fails_def env_ok_def upt_const_replicate CL_SUCCESS_def
      CL_INVALID_MEM_OBJECT_def del: upt_rec_numeral)

subsection \<open>From the run up to the print loop to the whole run\<close>

lemma main_of_pre_print:
  "exec (main_body env) (init_state env) =
     (case pre_print env of Inl x \<Rightarrow> Inl x | Inr s \<Rightarrow> exec (print_output @ host_cleanup) s)"
  unfolding pre_print_def
  using exec_append [of "host_setup env @ offload env @ release env"
      "print_output @ host_cleanup" "init_state env"]
  by (simp add: main_body_def)

lemma main_of_abort: "pre_print env = Inl x \<Longrightarrow> main env = x"
  by (simp add: main_def main_of_pre_print)

lemma main_of_success:
  assumes "pre_print env = Inr s" "heap s arrC = Some cs"
  shows "fst (main env) = Exit 0 \<and> downloaded_C env = cs
     \<and> calls (snd (main env)) = calls s
     \<and> stdout (snd (main env)) = lines_text (progress_lines @ map (\<lambda>x. decimal (sint x)) cs)"
  using main_cases [of env] assms
  by (auto simp: downloaded_C_def lines_text_append stopped_def)

lemma digit_chars: "digit 0 = CHR ''0''" "digit (Suc 0) = CHR ''1''" "digit 2 = CHR ''2''"
proof -
  have "(of_char (digit 0) :: nat) = of_char CHR ''0''"
    "(of_char (digit (Suc 0)) :: nat) = of_char CHR ''1''"
    "(of_char (digit 2) :: nat) = of_char CHR ''2''"
    by (simp_all add: digit_def)
  then show "digit 0 = CHR ''0''" "digit (Suc 0) = CHR ''1''" "digit 2 = CHR ''2''"
    by (simp_all only: of_char_eq_iff)
qed

lemma decimal_small: "decimal 0 = ''0''" "decimal 1 = ''1''" "decimal 2 = ''2''"
  by (simp_all add: decimal_def digits.simps digit_chars)

lemma lines_text_differ:
  "0 < n \<Longrightarrow> a \<noteq> b \<Longrightarrow> lines_text (replicate n (a # as)) \<noteq> lines_text (replicate n (b # bs))"
  by (cases n) (simp_all add: lines_text_def)

text \<open>When every call of the runtime succeeds, the run completes, the host array \<open>C\<close>
  holds 2048 twos after the read-back, and these are printed.\<close>

lemma vector_add_correct:
  assumes "\<And>c. api_status env c = CL_SUCCESS"
  shows "fst (main env) = Exit 0 \<and> downloaded_C env = replicate 2048 2
     \<and> stdout (snd (main env)) = lines_text (progress_lines @ replicate 2048 ''2'')"
proof -
  from pre_print_all_success [OF assms] obtain s where
    "pre_print env = Inr s" "heap s arrC = Some (replicate elements 2)"
    by blast
  from main_of_success [OF this] show ?thesis
    by (simp add: decimal_small elements_def)
qed

text \<open>A run can end in a fault: when the creation of a buffer fails, its unchecked null
  handle is bound as a kernel argument and the kernel is started on it.\<close>

lemma main_buffer_fails: "fst (main env_buffer_fails) = Fault"
proof -
  from pre_print_buffer_fails obtain s where "pre_print env_buffer_fails = Inl (Fault, s)"
    by blast
  then show ?thesis
    by (simp add: main_of_abort)
qed

lemma main_env_ok:
  "fst (main env_ok) = Exit 0" "downloaded_C env_ok = replicate 2048 2"
  "stdout (snd (main env_ok)) = lines_text (progress_lines @ replicate 2048 ''2'')"
  using vector_add_correct [of env_ok] by (simp_all add: env_ok_def)

subsection \<open>The claims\<close>

text \<open>
  C1 (does not hold of the code): a run in which the blocking read of the output buffer
  fails reaches completion all the same, because the status of \<open>clEnqueueReadBuffer\<close>
  (line 124) is stored and never checked. The host array \<open>C\<close> then still holds what
  \<open>malloc\<close> left there (here zeros), and that is what is printed: no element is 2.
\<close>

theorem readback_failure_completes:
  "fst (main env_readback_fails) = Exit 0
   \<and> downloaded_C env_readback_fails = replicate 2048 0
   \<and> stdout (snd (main env_readback_fails)) = lines_text (progress_lines @ replicate 2048 ''0'')"
proof -
  from pre_print_readback_fails obtain s where
    "pre_print env_readback_fails = Inr s" "heap s arrC = Some (replicate elements 0)"
    by blast
  from main_of_success [OF this] show ?thesis
    by (simp add: decimal_small elements_def)
qed

text \<open>
  C2: on a successful run (exit code 0) the standard output is exactly the seven progress
  lines followed by one line per element of the host array \<open>C\<close> as it is when the print
  loop starts, in index order: line \<open>i\<close> is the decimal rendering of \<open>C[i]\<close> followed by
  a newline. There are 2048 elements, and a decimal rendering contains no newline, so these
  are exactly 2048 lines.
\<close>

theorem printed_output:
  assumes "fst (main env) = Exit 0"
  shows "stdout (snd (main env)) =
           lines_text (progress_lines @ map (\<lambda>x. decimal (sint x)) (downloaded_C env))
         \<and> length (downloaded_C env) = 2048
         \<and> (\<forall>x. nl \<notin> set (decimal x))"
  using main_success [OF assms]
  by (auto simp: downloaded_C_def lines_text_append decimal_no_nl elements_def)

theorem printed_output_witness:
  "fst (main env_ok) = Exit 0
   \<and> stdout (snd (main env_ok)) = lines_text (progress_lines @ replicate 2048 ''2'')
   \<and> length (downloaded_C env_ok) = 2048"
  using printed_output [of env_ok] main_env_ok by (simp add: decimal_small)

text \<open>
  C3 (does not hold of the code): the status of the upload of \<open>A\<close> (line 82) is
  overwritten by the next call and never checked. A run in which that upload fails with a
  negative status prints no error message, goes on through every later step and returns 0,
  printing the sum of the uninitialised device buffer and \<open>B\<close>.
\<close>

theorem upload_failure_unchecked:
  "fst (main env_upload_fails) = Exit 0
   \<and> (clEnqueueWriteBuffer bufA datasize arrA, - 4) \<in> set (calls (snd (main env_upload_fails)))
   \<and> sint (- 4 :: cl_int) < 0
   \<and> stdout (snd (main env_upload_fails)) = lines_text (progress_lines @ replicate 2048 ''1'')"
proof -
  from pre_print_upload_fails obtain s where
    "pre_print env_upload_fails = Inr s" "heap s arrC = Some (replicate elements 1)"
    "(clEnqueueWriteBuffer bufA datasize arrA, - 4) \<in> set (calls s)"
    by blast
  from main_of_success [OF this(1,2)] this(3) show ?thesis
    by (simp add: decimal_small elements_def)
qed

text \<open>
  C4: when platform enumeration fails, the process ends with exit code -1 and prints none of
  the output lines: its standard output is the first progress line and the error message.
  The status of \<open>clGetPlatformIDs\<close> itself is not checked (line 64); the run goes on, the
  runtime rejects every later call for the missing object, and \<open>check\<close> ends the process at
  the first checked call, \<open>clCreateProgramWithSource\<close>, rejected with
  \<open>CL_INVALID_CONTEXT\<close>.
\<close>

theorem no_platform_aborts:
  assumes "api_status env clGetPlatformIDs \<noteq> CL_SUCCESS"
  shows "fst (main env) = Exit (- 1)
     \<and> stdout (snd (main env)) =
         lines_text [''Create a program with source code'', ''ERROR. Exiting...'']
     \<and> calls (snd (main env)) =
         [(clGetPlatformIDs, api_status env clGetPlatformIDs),
          (clGetDeviceIDs, CL_INVALID_PLATFORM),
          (clCreateContext, CL_INVALID_DEVICE),
          (clCreateCommandQueueWithPropertiesAPPLE, CL_INVALID_CONTEXT),
          (clCreateBuffer bufA datasize, CL_INVALID_CONTEXT),
          (clCreateBuffer bufB datasize, CL_INVALID_CONTEXT),
          (clCreateBuffer bufC datasize, CL_INVALID_CONTEXT),
          (clEnqueueWriteBuffer bufA datasize arrA, CL_INVALID_COMMAND_QUEUE),
          (clEnqueueWriteBuffer bufB datasize arrB, CL_INVALID_COMMAND_QUEUE),
          (clCreateProgramWithSource, CL_INVALID_CONTEXT)]"
proof -
  from pre_print_no_platform [OF assms] obtain s where
    s: "pre_print env = Inl (Exit (- 1), s)"
    "stdout s = lines_text [''Create a program with source code'', ''ERROR. Exiting...'']"
    "calls s =
         [(clGetPlatformIDs, api_status env clGetPlatformIDs),
          (clGetDeviceIDs, CL_INVALID_PLATFORM),
          (clCreateContext, CL_INVALID_DEVICE),
          (clCreateCommandQueueWithPropertiesAPPLE, CL_INVALID_CONTEXT),
          (clCreateBuffer bufA datasize, CL_INVALID_CONTEXT),
          (clCreateBuffer bufB datasize, CL_INVALID_CONTEXT),
          (clCreateBuffer bufC datasize, CL_INVALID_CONTEXT),
          (clEnqueueWriteBuffer bufA datasize arrA, CL_INVALID_COMMAND_QUEUE),
          (clEnqueueWriteBuffer bufB datasize arrB, CL_INVALID_COMMAND_QUEUE),
          (clCreateProgramWithSource, CL_INVALID_CONTEXT)]"
    by blast
  from main_of_abort [OF s(1)] s(2,3) show ?thesis
    by simp
qed

theorem no_platform_aborts_witness:
  "api_status env_no_platform clGetPlatformIDs \<noteq> CL_SUCCESS
   \<and> fst (main env_no_platform) = Exit (- 1)
   \<and> stdout (snd (main env_no_platform)) =
         lines_text [''Create a program with source code'', ''ERROR. Exiting...'']"
proof -
  have h: "api_status env_no_platform clGetPlatformIDs \<noteq> CL_SUCCESS"
    by (simp add: env_no_platform_def env_ok_def CL_SUCCESS_def)
  from h no_platform_aborts [OF h] show ?thesis
    by simp
qed

text \<open>
  C5: a run ends with exit code -1 exactly when a checked call returned a negative status
  (the checked calls are those whose status reaches \<open>check\<close>:
  \<open>clCreateProgramWithSource\<close>, \<open>clBuildProgram\<close>, \<open>clCreateKernel\<close>, the third
  \<open>clSetKernelArg\<close> and \<open>clEnqueueNDRangeKernel\<close>). Every other run either reaches the
  end of \<open>main\<close>, and then its exit code is 0, or it is cut short by a fault (the kernel
  started on a buffer that was never created); no other exit code occurs. The exit
  code is the argument of \<open>exit\<close> or the value \<open>main\<close> returns.
\<close>

theorem exit_code:
  "(fst (main env) = Exit (- 1)) = (failed_checks (calls (snd (main env))) \<noteq> [])
   \<and> (fst (main env) = Exit 0) = (\<exists>s. pre_print env = Inr s)
   \<and> (fst (main env) = Exit 0 \<or> fst (main env) = Exit (- 1) \<or> fst (main env) = Fault)"
  using main_cases [of env] by (auto simp: stopped_def)

theorem exit_code_witness:
  "fst (main env_ok) = Exit 0 \<and> failed_checks (calls (snd (main env_ok))) = []
   \<and> fst (main env_no_platform) = Exit (- 1)
   \<and> failed_checks (calls (snd (main env_no_platform))) \<noteq> []"
proof -
  have "api_status env_no_platform clGetPlatformIDs \<noteq> CL_SUCCESS"
    by (simp add: env_no_platform_def env_ok_def CL_SUCCESS_def)
  from pre_print_no_platform [OF this] obtain s where
    "pre_print env_no_platform = Inl (Exit (- 1), s)"
    by blast
  then have "fst (main env_no_platform) = Exit (- 1)"
    by (simp add: main_of_abort)
  with exit_code [of env_ok] exit_code [of env_no_platform] main_env_ok(1) show ?thesis
    by simp
qed

text \<open>
  C6: the dispatch is one-dimensional with index space 2048 and work-group size 256; 256
  divides 2048 and there are 8 work-groups, so the runtime never rejects the dispatch for
  its work-group size. No run makes any other dispatch, and a successful run makes exactly
  this one.
\<close>

theorem dispatch_parameters:
  "indexSpaceSize = 2048 \<and> workGroupSize = 256
   \<and> workGroupSize dvd indexSpaceSize
   \<and> num_groups indexSpaceSize workGroupSize = 8
   \<and> invalid_arg (clEnqueueNDRangeKernel indexSpaceSize workGroupSize) s
        \<noteq> Some CL_INVALID_WORK_GROUP_SIZE
   \<and> set (filter is_dispatch (map fst (calls (snd (main env)))))
        \<subseteq> {clEnqueueNDRangeKernel 2048 256}
   \<and> (fst (main env) = Exit 0 \<longrightarrow>
        filter is_dispatch (map fst (calls (snd (main env)))) = [clEnqueueNDRangeKernel 2048 256])"
proof -
  have sizes: "indexSpaceSize = 2048" "workGroupSize = 256"
    by (simp_all add: indexSpaceSize_def elements_def workGroupSize_def)
  have "set (filter is_dispatch program_calls) \<subseteq> {clEnqueueNDRangeKernel 2048 256}"
    by (simp add: program_calls_def sizes)
  with known_calls_main [of env]
  have a: "set (filter is_dispatch (map fst (calls (snd (main env)))))
        \<subseteq> {clEnqueueNDRangeKernel 2048 256}"
    by (auto simp: known_calls_def)
  have b: "filter is_dispatch (map fst (calls (snd (main env)))) = [clEnqueueNDRangeKernel 2048 256]"
    if "fst (main env) = Exit 0"
    using main_success [OF that] by (auto simp: program_calls_def sizes)
  have c: "invalid_arg (clEnqueueNDRangeKernel indexSpaceSize workGroupSize) s
        \<noteq> Some CL_INVALID_WORK_GROUP_SIZE"
    by (simp add: sizes CL_INVALID_WORK_GROUP_SIZE_def CL_INVALID_COMMAND_QUEUE_def
        CL_INVALID_KERNEL_def CL_INVALID_KERNEL_ARGS_def)
  from a b c show ?thesis
    by (simp add: sizes num_groups_def)
qed

theorem dispatch_parameters_witness:
  "fst (main env_ok) = Exit 0
   \<and> filter is_dispatch (map fst (calls (snd (main env_ok)))) = [clEnqueueNDRangeKernel 2048 256]
   \<and> num_groups 2048 256 = 8"
  using dispatch_parameters [where env = env_ok and s = "init_state env_ok"] main_env_ok(1)
  by simp

text \<open>
  C7 (does not hold of the code): two runs that both reach completion can print different
  text. In one every call succeeds and 2048 lines \<open>2\<close> are printed; in the other the
  read-back fails, its status is not checked, and the uninitialised host array is printed.
\<close>

theorem complete_runs_differ:
  "fst (main env_ok) = Exit 0 \<and> fst (main env_readback_fails) = Exit 0
   \<and> stdout (snd (main env_ok)) \<noteq> stdout (snd (main env_readback_fails))"
proof -
  from pre_print_readback_fails obtain s where
    "pre_print env_readback_fails = Inr s" "heap s arrC = Some (replicate elements 0)"
    by blast
  from main_of_success [OF this]
  have "fst (main env_readback_fails) = Exit 0"
    "stdout (snd (main env_readback_fails)) = lines_text (progress_lines @ replicate 2048 ''0'')"
    by (simp_all add: decimal_small elements_def)
  moreover have "lines_text (replicate 2048 ''2'') \<noteq> lines_text (replicate 2048 ''0'')"
    by (rule lines_text_differ) simp_all
  ultimately show ?thesis
    using main_env_ok by (simp add: lines_text_append)
qed

text \<open>
  C8: in a successful run every API call is made exactly once, and for each of the three
  buffers the context is created before the buffer is created, the buffer is created before
  it is released, and it is released before the context is released.
\<close>

theorem buffer_lifetime_nested:
  assumes "fst (main env) = Exit 0"
  shows "distinct (map fst (calls (snd (main env))))
     \<and> precedes clCreateContext (clCreateBuffer b datasize) (map fst (calls (snd (main env))))
     \<and> precedes (clCreateBuffer b datasize) (clReleaseMemObject b)
          (map fst (calls (snd (main env))))
     \<and> precedes (clReleaseMemObject b) clReleaseContext (map fst (calls (snd (main env))))"
proof -
  from main_success [OF assms] have "map fst (calls (snd (main env))) = program_calls"
    by auto
  then show ?thesis
    by (cases b) (simp_all add: program_calls_def)
qed

theorem buffer_lifetime_nested_witness:
  "fst (main env_ok) = Exit 0
   \<and> precedes clCreateContext (clCreateBuffer bufC datasize) (map fst (calls (snd (main env_ok))))
   \<and> precedes (clCreateBuffer bufC datasize) (clReleaseMemObject bufC)
        (map fst (calls (snd (main env_ok))))
   \<and> precedes (clReleaseMemObject bufC) clReleaseContext (map fst (calls (snd (main env_ok))))"
  using buffer_lifetime_nested [of env_ok bufC] main_env_ok(1) by simp

text \<open>
  C9: \<open>check\<close> returns normally exactly when the status is not negative (zero or
  positive), and then the run goes on with the next statement in the same state.
\<close>

theorem check_aborts_only_on_negative:
  "(check st s = Inr s) = (0 \<le> sint st)
   \<and> (0 \<le> sint (status s) \<longrightarrow> exec (check_status # cs) s = exec cs s)"
  by (simp add: check_def check_status_def)

theorem check_aborts_only_on_negative_witness:
  "0 \<le> sint (status ((init_state env_ok)\<lparr>status := 7\<rparr>))
   \<and> check 7 ((init_state env_ok)\<lparr>status := 7\<rparr>) = Inr ((init_state env_ok)\<lparr>status := 7\<rparr>)
   \<and> exec [check_status] ((init_state env_ok)\<lparr>status := 7\<rparr>)
       = Inr ((init_state env_ok)\<lparr>status := 7\<rparr>)"
  using check_aborts_only_on_negative
    [of 7 "(init_state env_ok)\<lparr>status := 7\<rparr>" "[]"]
  by simp

text \<open>
  C10: from the end of the initialisation loop to the end of the print loop, after every
  statement executed, \<open>A\<close> and \<open>B\<close> hold 2048 ones; after that they are only freed, so at
  every later point each of them is either freed or still holds 2048 ones. The print loop
  changes nothing but the standard output, and what it prints is determined by \<open>C\<close>
  alone.
\<close>

theorem inputs_not_written:
  "until_printed env \<noteq> []
   \<and> (\<forall>s\<in>set (until_printed env).
         heap s arrA = Some (replicate 2048 1) \<and> heap s arrB = Some (replicate 2048 1))
   \<and> (\<forall>s\<in>set (after_init env).
         (heap s arrA = None \<or> heap s arrA = Some (replicate 2048 1))
         \<and> (heap s arrB = None \<or> heap s arrB = Some (replicate 2048 1)))
   \<and> (\<forall>s cs. heap s arrC = Some cs \<and> length cs = 2048 \<longrightarrow>
         exec print_output s =
           Inr (s\<lparr>stdout := stdout s @ lines_text (map (\<lambda>x. decimal (sint x)) cs)\<rparr>))"
proof -
  let ?mid = "offload env @ release env @ print_output"
  from after_init_eq [of env] obtain s1 ps where
    s1: "inputs_ones s1" and ai: "after_init env = s1 # ps"
    and up: "until_printed env = s1 # points ?mid s1"
    and ps: "ps = points ?mid s1 \<or>
         (\<exists>s2. exec ?mid s1 = Inr s2 \<and> ps = points ?mid s1 @ points host_cleanup s2)"
    by blast
  have mid: "\<forall>s\<in>set (points ?mid s1). inputs_ones s"
    using preserves_device_part s1 by (rule points_preserves)
  have a: "\<forall>s\<in>set (until_printed env). inputs_ones s"
    using up s1 mid by simp
  have b: "\<forall>s\<in>set (after_init env). ones_or_freed s"
  proof (cases "ps = points ?mid s1")
    case True
    with ai s1 mid show ?thesis
      by (auto intro: inputs_ones_imp)
  next
    case False
    with ps obtain s2 where s2: "exec ?mid s1 = Inr s2"
      "ps = points ?mid s1 @ points host_cleanup s2"
      by blast
    from exec_preserves [OF preserves_device_part s1, of env] s2(1) have "inputs_ones s2"
      by simp
    then have "ones_or_freed s2"
      by (rule inputs_ones_imp)
    with preserves_cleanup have "\<forall>s\<in>set (points host_cleanup s2). ones_or_freed s"
      by (rule points_preserves)
    with ai s1 mid s2(2) show ?thesis
      by (auto intro: inputs_ones_imp)
  qed
  have c: "exec print_output s =
      Inr (s\<lparr>stdout := stdout s @ lines_text (map (\<lambda>x. decimal (sint x)) cs)\<rparr>)"
    if "heap s arrC = Some cs" "length cs = 2048" for s cs
    using that by (intro exec_print_output) (simp_all add: elements_def)
  from a b c up show ?thesis
    by (simp add: inputs_ones_def ones_or_freed_def elements_def)
qed

theorem inputs_not_written_witness:
  "hd (until_printed env_ok) \<in> set (until_printed env_ok)
   \<and> heap (hd (until_printed env_ok)) arrA = Some (replicate 2048 1)
   \<and> heap (hd (until_printed env_ok)) arrB = Some (replicate 2048 1)
   \<and> heap (last (until_printed env_ok)) arrA = Some (replicate 2048 1)"
  using inputs_not_written [of env_ok] by simp

end
